theory Spec2Isabelle
  imports Main
begin

section \<open>Python strings\<close>

text \<open>
  A Python \<open>str\<close> is modelled as a \<open>string\<close>, one \<open>char\<close> per code point (code points
  below 256). \<open>isspace\<close> is the whitespace test shared by the regular-expression class
  \<open>\s\<close> and by \<open>str.strip()\<close>.
\<close>

definition isspace :: "char \<Rightarrow> bool" where
  "isspace c \<longleftrightarrow> c \<in> set [CHR 0x09, CHR 0x0A, CHR 0x0B, CHR 0x0C, CHR 0x0D,
                           CHR 0x1C, CHR 0x1D, CHR 0x1E, CHR 0x1F, CHR 0x20,
                           CHR 0x85, CHR 0xA0]"

text \<open>\<open>s.strip()\<close>\<close>

definition strip :: "string \<Rightarrow> string" where
  "strip s = rev (dropWhile isspace (rev (dropWhile isspace s)))"

text \<open>\<open>'\n'.join(lines)\<close>\<close>

fun join_nl :: "string list \<Rightarrow> string" where
  "join_nl [] = []"
| "join_nl [l] = l"
| "join_nl (l # ls) = l @ CHR 0x0A # join_nl ls"

text \<open>\<open>page.split("\n")\<close>: never the empty list; the empty string gives \<open>['']\<close>.\<close>

fun split_nl :: "string \<Rightarrow> string list" where
  "split_nl [] = [[]]"
| "split_nl (c # cs) =
     (if c = CHR 0x0A then [] # split_nl cs
      else (case split_nl cs of [] \<Rightarrow> [[c]] | l # ls \<Rightarrow> (c # l) # ls))"

section \<open>Regular expressions\<close>

text \<open>
  The fragment of Python's \<open>re\<close> that the three patterns of the sources use, with the
  backtracking order of the library: a greedy repetition tries the longest run first, a
  lazy one the shortest, an optional group is tried before it is skipped.
\<close>

datatype cclass =
    Space              \<comment> \<open>\<open>\s\<close>\<close>
  | NonSpace           \<comment> \<open>\<open>\S\<close>\<close>
  | AnyChar            \<comment> \<open>\<open>.\<close> under \<open>re.DOTALL\<close>\<close>
  | OneOf string       \<comment> \<open>a bracket class, its members listed\<close>

fun in_class :: "cclass \<Rightarrow> char \<Rightarrow> bool" where
  "in_class Space c = isspace c"
| "in_class NonSpace c = (\<not> isspace c)"
| "in_class AnyChar c = True"
| "in_class (OneOf cs) c = (c \<in> set cs)"

datatype re =
    Lit string         \<comment> \<open>literal text\<close>
  | Star cclass        \<comment> \<open>\<open>k*\<close>\<close>
  | Plus cclass        \<comment> \<open>\<open>k+\<close>\<close>
  | LazyStar cclass    \<comment> \<open>\<open>k*?\<close>\<close>
  | Opt re             \<comment> \<open>\<open>(r)?\<close>\<close>
  | Cat re re          \<comment> \<open>\<open>r1 r2\<close>\<close>
  | Cap string re      \<comment> \<open>a capturing group that the program reads, under its name\<close>
  | Bol                \<comment> \<open>\<open>^\<close> without \<open>re.MULTILINE\<close>\<close>
  | Eol                \<comment> \<open>\<open>$\<close> without \<open>re.MULTILINE\<close>\<close>

type_synonym caps = "string \<rightharpoonup> string"

text \<open>
  The remainders a greedy \<open>k*\<close> can leave, in the order the matcher tries them:
  the longest run first.
\<close>

fun star_results :: "(char \<Rightarrow> bool) \<Rightarrow> string \<Rightarrow> string list" where
  "star_results P [] = [[]]"
| "star_results P (x # xs) = (if P x then star_results P xs @ [x # xs] else [x # xs])"

fun plus_results :: "(char \<Rightarrow> bool) \<Rightarrow> string \<Rightarrow> string list" where
  "plus_results P [] = []"
| "plus_results P (x # xs) = (if P x then star_results P xs else [])"

text \<open>
  \<open>rmatch r n s c\<close>: every way \<open>r\<close> matches a prefix of \<open>s\<close>, as the remainder and the
  captures, in backtracking order. \<open>n\<close> is the length of the whole subject, so that the
  position of \<open>s\<close> in it is \<open>n - length s\<close>; \<open>c\<close> holds the captures so far.
\<close>

fun rmatch :: "re \<Rightarrow> nat \<Rightarrow> string \<Rightarrow> caps \<Rightarrow> (string \<times> caps) list" where
  "rmatch (Lit l) n s c = (if take (length l) s = l then [(drop (length l) s, c)] else [])"
| "rmatch (Star k) n s c = map (\<lambda>s'. (s', c)) (star_results (in_class k) s)"
| "rmatch (Plus k) n s c = map (\<lambda>s'. (s', c)) (plus_results (in_class k) s)"
| "rmatch (LazyStar k) n s c = map (\<lambda>s'. (s', c)) (rev (star_results (in_class k) s))"
| "rmatch (Opt r) n s c = rmatch r n s c @ [(s, c)]"
| "rmatch (Cat r1 r2) n s c = concat (map (\<lambda>(s', c'). rmatch r2 n s' c') (rmatch r1 n s c))"
| "rmatch (Cap g r) n s c =
     map (\<lambda>(s', c'). (s', c'(g \<mapsto> take (length s - length s') s))) (rmatch r n s c)"
| "rmatch Bol n s c = (if length s = n then [(s, c)] else [])"
| "rmatch Eol n s c = (if s = [] \<or> s = [CHR 0x0A] then [(s, c)] else [])"

text \<open>The first match of \<open>r\<close> that starts where \<open>s\<close> starts: its length and captures.\<close>

definition re_match_at :: "re \<Rightarrow> nat \<Rightarrow> string \<Rightarrow> (nat \<times> caps) option" where
  "re_match_at r n s =
     (case rmatch r n s Map.empty of
        [] \<Rightarrow> None
      | (s', c) # _ \<Rightarrow> Some (length s - length s', c))"

text \<open>\<open>pattern.match(s)\<close>\<close>

definition re_match :: "re \<Rightarrow> string \<Rightarrow> (nat \<times> caps) option" where
  "re_match r s = re_match_at r (length s) s"

text \<open>\<open>pattern.search(s)\<close>: the leftmost start position that matches, with the match there.\<close>

fun re_search_from :: "re \<Rightarrow> nat \<Rightarrow> string \<Rightarrow> (nat \<times> nat \<times> caps) option" where
  "re_search_from r n [] =
     (case re_match_at r n [] of None \<Rightarrow> None | Some (k, c) \<Rightarrow> Some (0, k, c))"
| "re_search_from r n (x # xs) =
     (case re_match_at r n (x # xs) of
        Some (k, c) \<Rightarrow> Some (0, k, c)
      | None \<Rightarrow> map_option (\<lambda>(i, k, c). (Suc i, k, c)) (re_search_from r n xs))"

definition re_search :: "re \<Rightarrow> string \<Rightarrow> (nat \<times> nat \<times> caps) option" where
  "re_search r s = re_search_from r (length s) s"

text \<open>\<open>pattern.sub(repl, s, 1)\<close> for a pattern that matches no empty string.\<close>

definition re_sub1 :: "re \<Rightarrow> string \<Rightarrow> string \<Rightarrow> string" where
  "re_sub1 r repl s =
     (case re_search r s of
        None \<Rightarrow> s
      | Some (i, k, c) \<Rightarrow> take i s @ repl @ drop (i + k) s)"

text \<open>
  The scan behind \<open>pattern.findall(s)\<close> and \<open>pattern.split(s)\<close>, for a pattern without
  groups that matches no empty string: left to right, each match taken at the leftmost
  position that has one, the next search starting where the match ended. The result is
  the list of (text before the match, match) and the text after the last match.
  \<open>seg\<close> is the text passed over since the last match.
\<close>

function re_scan :: "re \<Rightarrow> nat \<Rightarrow> string \<Rightarrow> string \<Rightarrow> (string \<times> string) list \<times> string" where
  "re_scan r n seg [] = ([], seg)"
| "re_scan r n seg (x # xs) =
     (case re_match_at r n (x # xs) of
        Some (Suc k, c) \<Rightarrow>
          (let (ps, t) = re_scan r n [] (drop k xs) in ((seg, x # take k xs) # ps, t))
      | _ \<Rightarrow> re_scan r n (seg @ [x]) xs)"
  by pat_completeness auto
termination
  by (relation "measure (\<lambda>(r, n, seg, s). length s)") auto

definition re_findall :: "re \<Rightarrow> string \<Rightarrow> string list" where
  "re_findall r s = map snd (fst (re_scan r (length s) [] s))"

definition re_split :: "re \<Rightarrow> string \<Rightarrow> string list" where
  "re_split r s = (let (ps, t) = re_scan r (length s) [] s in map fst ps @ [t])"

text \<open>A sequence of patterns, one after the other.\<close>

definition cat :: "re list \<Rightarrow> re" where
  "cat rs = foldr Cat rs (Lit [])"

section \<open>Errors\<close>

datatype pyerr =
    AttributeError string
  | TypeError string
  | ValueError string
  | Exception string

section \<open>mdx\_liquid\_tags.py\<close>

text \<open>\<open>LIQUID_TAG = re.compile(r'\{%.*?%\}', re.MULTILINE | re.DOTALL)\<close>\<close>

definition LIQUID_TAG :: re where
  "LIQUID_TAG = cat [Lit ''{%'', LazyStar AnyChar, Lit ''%}'']"

text \<open>
  \<open>EXTRACT_TAG = re.compile(r'(?:\s*)(\S+)(?:\s*)')\<close>; its one capturing group is
  group 1.
\<close>

definition EXTRACT_TAG :: re where
  "EXTRACT_TAG = cat [Star Space, Cap ''1'' (Plus NonSpace), Star Space]"

text \<open>
  A handler is called as \<open>handler(preprocessor, tag, markup)\<close>; it returns the
  replacement or raises, and may change the world \<open>'w\<close> outside the preprocessor (the
  HTML stash, files, subprocesses).
\<close>

type_synonym ('p, 'w) handler = "'p \<Rightarrow> string \<Rightarrow> string \<Rightarrow> 'w \<Rightarrow> (pyerr + string) \<times> 'w"

text \<open>\<open>_LiquidTagsPreprocessor._tags\<close>, the dictionary of the class.\<close>

type_synonym ('p, 'w) registry = "string \<rightharpoonup> ('p, 'w) handler"

text \<open>
  The loop of \<open>run\<close> over \<open>liquid_tags\<close> (lines 34 to 40). It returns the list as the
  loop leaves it. \<open>EXTRACT_TAG.match(markup)\<close> is \<open>None\<close> where nothing matches, and
  \<open>None.groups()\<close> raises.
\<close>

fun run_loop ::
  "('p, 'w) registry \<Rightarrow> 'p \<Rightarrow> string list \<Rightarrow> 'w \<Rightarrow> (pyerr + string list) \<times> 'w" where
  "run_loop tags self [] w = (Inr [], w)"
| "run_loop tags self (m # ms) w =
     (let markup = take (length m - 4) (drop 2 m) in
      case re_match EXTRACT_TAG markup of
        None \<Rightarrow> (Inl (AttributeError ''NoneType object has no attribute groups''), w)
      | Some (k, c) \<Rightarrow>
          (let tag = c ''1'';
               markup = re_sub1 EXTRACT_TAG [] markup
           in case (case tag of None \<Rightarrow> None | Some t \<Rightarrow> map_option (Pair t) (tags t)) of
                None \<Rightarrow>
                  (case run_loop tags self ms w of
                     (Inl e, w') \<Rightarrow> (Inl e, w')
                   | (Inr rs, w') \<Rightarrow> (Inr (m # rs), w'))
              | Some (t, h) \<Rightarrow>
                  (case h self t (strip markup) w of
                     (Inl e, w') \<Rightarrow> (Inl e, w')
                   | (Inr r, w') \<Rightarrow>
                       (case run_loop tags self ms w' of
                          (Inl e, w'') \<Rightarrow> (Inl e, w'')
                        | (Inr rs, w'') \<Rightarrow> (Inr (r # rs), w'')))))"

text \<open>\<open>itertools.chain(*zip(xs, ys))\<close>\<close>

definition chain_zip :: "'a list \<Rightarrow> 'a list \<Rightarrow> 'a list" where
  "chain_zip xs ys = concat (map (\<lambda>(x, y). [x, y]) (zip xs ys))"

text \<open>\<open>_LiquidTagsPreprocessor.run(self, lines)\<close>\<close>

definition run ::
  "('p, 'w) registry \<Rightarrow> 'p \<Rightarrow> string list \<Rightarrow> 'w \<Rightarrow> (pyerr + string list) \<times> 'w" where
  "run tags self lines w =
     (let page = join_nl lines;
          liquid_tags = re_findall LIQUID_TAG page
      in case run_loop tags self liquid_tags w of
           (Inl e, w') \<Rightarrow> (Inl e, w')
         | (Inr liquid_tags, w') \<Rightarrow>
             (let liquid_tags = liquid_tags @ [[]];
                  page = concat (chain_zip (re_split LIQUID_TAG page) liquid_tags)
              in (Inr (split_nl page), w')))"

text \<open>
  \<open>LiquidTags.register(tag)(func)\<close>, the decorator applied: the state is the registry and
  the warnings issued so far; the decorator returns \<open>func\<close>.
\<close>

definition register ::
  "string \<Rightarrow> ('p, 'w) handler \<Rightarrow> ('p, 'w) registry \<times> string list
     \<Rightarrow> ('p, 'w) handler \<times> ('p, 'w) registry \<times> string list" where
  "register tag func st =
     (let (tags, warnings) = st;
          warnings = (if tag \<in> dom tags
                      then warnings @ [''Enhanced Markdown: overriding tag '' @ [CHR 0x27] @ tag @ [CHR 0x27]]
                      else warnings)
      in (func, tags(tag \<mapsto> func), warnings))"

section \<open>notebook.py\<close>

subsection \<open>SubCell\<close>

text \<open>
  Python's \<open>xs[start:end]\<close>, each bound an integer or \<open>None\<close>: a negative bound counts
  from the end, and every bound is clipped to the list.
\<close>

definition slice_bound :: "nat \<Rightarrow> int option \<Rightarrow> nat \<Rightarrow> nat" where
  "slice_bound n b d =
     (case b of
        None \<Rightarrow> d
      | Some i \<Rightarrow> if i < 0 then nat (max 0 (int n + i)) else min n (nat i))"

definition py_slice :: "'a list \<Rightarrow> int option \<Rightarrow> int option \<Rightarrow> 'a list" where
  "py_slice xs b e =
     (let n = length xs; lo = slice_bound n b 0; hi = slice_bound n e n
      in take (hi - lo) (drop lo xs))"

text \<open>
  Notebooks are objects that the caller and the preprocessor share, so they live in a
  store: an address is an index into the list of allocated objects. The cells of a
  notebook are values here, so that copying an object copies all of it.
\<close>

record ('c, 'm) notebook_node =
  cells :: "'c list"
  other :: 'm

type_synonym addr = nat
type_synonym ('c, 'm) store = "('c, 'm) notebook_node list"

text \<open>\<open>deepcopy(nb)\<close>: a new object with the contents of the old one.\<close>

definition deepcopy :: "('c, 'm) store \<Rightarrow> addr \<Rightarrow> ('c, 'm) store \<times> addr" where
  "deepcopy h a = (h @ [h ! a], length h)"

text \<open>The traits \<open>start\<close> and \<open>end\<close> of a \<open>SubCell\<close>.\<close>

record subcell =
  start :: "int option"
  end' :: "int option"

text \<open>
  \<open>SubCell.preprocess(self, nb, resources)\<close>. A reference of the program always points to
  an object; the model gives \<open>None\<close> for an address that does not.
\<close>

definition preprocess ::
  "subcell \<Rightarrow> addr \<Rightarrow> 'r \<Rightarrow> ('c, 'm) store \<Rightarrow> ((addr \<times> 'r) \<times> ('c, 'm) store) option" where
  "preprocess self nb resources h =
     (if nb < length h then
        (let (h, nbc) = deepcopy h nb;
             h = h[nbc := (h ! nbc)\<lparr>cells := py_slice (cells (h ! nbc)) (start self) (end' self)\<rparr>]
         in Some ((nbc, resources), h))
      else None)"

subsection \<open>The notebook tag\<close>

definition WRAPPER_ID :: string where
  "WRAPPER_ID = ''nb-wrapper''"

text \<open>\<open>CSS_WRAPPER.format(css)\<close>\<close>

definition CSS_WRAPPER_format :: "string \<Rightarrow> string" where
  "CSS_WRAPPER_format css =
     [CHR 0x0A] @ ''<style type='' @ [CHR 0x22] @ ''text/css'' @ [CHR 0x22] @ ''>'' @ [CHR 0x0A]
     @ css @ [CHR 0x0A] @ ''</style>'' @ [CHR 0x0A]"

definition SYNTAX :: string where
  "SYNTAX = ''{% notebook /path/to/notebook.ipynb [ cells[start:end] ] [ language[language] ] %}''"

definition digits :: cclass where
  "digits = OneOf ''0123456789''"

text \<open>
  \<open>FORMAT\<close>, with the four named groups; the unnamed groups of the pattern are read
  nowhere.
\<close>

definition FORMAT :: re where
  "FORMAT = cat
     [Bol, Opt (Plus Space), Cap ''src'' (Plus NonSpace), Opt (Plus Space),
      Opt (cat [Lit ''cells['',
                Cap ''start'' (cat [Opt (Lit ''-''), Star digits]),
                Lit '':'',
                Cap ''end'' (cat [Opt (Lit ''-''), Star digits]),
                Lit '']'']),
      Opt (Plus Space),
      Opt (cat [Lit ''language['',
                Cap ''language''
                  (cat [Opt (Lit ''-''), Star (OneOf ''abcdefghijklmnopqrstuvwxyz0123456789+-'')]),
                Lit '']'']),
      Opt (Plus Space), Eol]"

definition digit_val :: "char \<Rightarrow> nat option" where
  "digit_val = map_of
     [(CHR ''0'', 0), (CHR ''1'', 1), (CHR ''2'', 2), (CHR ''3'', 3), (CHR ''4'', 4),
      (CHR ''5'', 5), (CHR ''6'', 6), (CHR ''7'', 7), (CHR ''8'', 8), (CHR ''9'', 9)]"

fun decimal :: "nat \<Rightarrow> string \<Rightarrow> nat option" where
  "decimal a [] = Some a"
| "decimal a (c # cs) =
     (case digit_val c of None \<Rightarrow> None | Some d \<Rightarrow> decimal (10 * a + d) cs)"

text \<open>
  \<open>int(s)\<close> on the strings \<open>FORMAT\<close> lets through, \<open>-?[0-9]*\<close>: an optional minus sign and
  decimal digits, at least one of them.
\<close>

definition py_int :: "string \<Rightarrow> pyerr + int" where
  "py_int s =
     (let (neg, ds) = (case s of
                         [] \<Rightarrow> (False, [])
                       | c # cs \<Rightarrow> if c = CHR ''-'' then (True, cs) else (False, s))
      in case (if ds = [] then None else decimal 0 ds) of
           None \<Rightarrow> Inl (ValueError (''invalid literal for int() with base 10: ''
                                  @ [CHR 0x27] @ s @ [CHR 0x27]))
         | Some v \<Rightarrow> Inr (if neg then - int v else int v))"

text \<open>
  Lines 97 to 116 of \<open>notebook\<close>: the match against \<open>FORMAT\<close> and the conversion of the
  bounds. The result is \<open>(src, start, end, language)\<close>.
\<close>

definition notebook_args ::
  "string \<Rightarrow> pyerr + (string option \<times> int \<times> int option \<times> string option)" where
  "notebook_args markup =
     (case re_search FORMAT markup of
        None \<Rightarrow> Inl (ValueError (''Error processing input, expected syntax: '' @ SYNTAX))
      | Some (i, k, argdict) \<Rightarrow>
          (let src = argdict ''src'';
               start_text = argdict ''start'';
               end_text = argdict ''end'';
               language = argdict ''language''
           in case (case start_text of
                      None \<Rightarrow> Inr 0
                    | Some t \<Rightarrow> if t \<noteq> [] then py_int t else Inr 0) of
                Inl e \<Rightarrow> Inl e
              | Inr start_v \<Rightarrow>
                  (case (case end_text of
                           None \<Rightarrow> Inr None
                         | Some t \<Rightarrow> if t \<noteq> [] then map_sum id Some (py_int t) else Inr None) of
                     Inl e \<Rightarrow> Inl e
                   | Inr end_v \<Rightarrow> Inr (src, start_v, end_v, language))))"

text \<open>\<open>os.path.join(a, b)\<close> on POSIX paths.\<close>

definition path_join :: "string \<Rightarrow> string \<Rightarrow> string" where
  "path_join a b =
     (if take 1 b = ''/'' then b
      else if a = [] \<or> last a = CHR ''/'' then a @ b
      else a @ ''/'' @ b)"

text \<open>What the handler does outside itself, in the order it does it.\<close>

datatype event =
    PathExists string
  | OpenFile string
  | FromNotebookNode string int "int option" "string option"
  | SubprocessRun "string list" string
  | StashStore string

record world =
  log :: "event list"
  stash :: "string list"

text \<open>
  The collaborators of the handler. The two files read at import time are not part of
  the sources and are parameters, as are the results of the file system, of the notebook
  exporter, of the subprocess and of the HTML stash.
\<close>

record 'nb env =
  CSS_INCLUDE :: string
  JS_INCLUDE :: string
  os_path_exists :: "string \<Rightarrow> bool"
  read_notebook :: "string \<Rightarrow> pyerr + 'nb"
  from_notebook_node :: "int \<Rightarrow> int option \<Rightarrow> string option \<Rightarrow> 'nb \<Rightarrow> pyerr + string \<times> string list"
  subprocess_run :: "string list \<Rightarrow> string \<Rightarrow> pyerr + int \<times> string"
  stash_store :: "string list \<Rightarrow> string \<Rightarrow> string"

text \<open>What a handler reads of the preprocessor: \<open>preprocessor.configs.getConfig\<close>.\<close>

record preprocessor =
  getConfig :: "string \<Rightarrow> string"

definition emit :: "event \<Rightarrow> world \<Rightarrow> world" where
  "emit e w = w\<lparr>log := log w @ [e]\<rparr>"

text \<open>
  Lines 158 to 170 of \<open>notebook\<close>: the LESS compiler, run with the clean-css plugin and,
  if that fails, without it.
\<close>

definition compile_css :: "'nb env \<Rightarrow> string \<Rightarrow> world \<Rightarrow> (pyerr + string) \<times> world" where
  "compile_css env css_as_less w =
     (let less_args = [''lessc'', ''-'', ''--clean-css''];
          w = emit (SubprocessRun less_args css_as_less) w
      in case subprocess_run env less_args css_as_less of
           Inl e \<Rightarrow> (Inl e, w)
         | Inr process \<Rightarrow>
             (case (if fst process \<noteq> 0
                    then (let less_args = butlast less_args
                          in (subprocess_run env less_args css_as_less,
                              emit (SubprocessRun less_args css_as_less) w))
                    else (Inr process, w)) of
                (Inl e, w) \<Rightarrow> (Inl e, w)
              | (Inr process, w) \<Rightarrow>
                  if fst process \<noteq> 0 \<or> snd process = []
                  then (Inl (Exception (''Failed to process notebook CSS. Is less installed?''
                                        @ ''Specifically, can you run '' @ [CHR 0x22]
                                        @ ''lessc --version'' @ [CHR 0x22] @ ''?'')), w)
                  else (Inr (CSS_WRAPPER_format (snd process)), w)))"

text \<open>\<open>notebook(preprocessor, tag, markup)\<close>\<close>

definition notebook :: "'nb env \<Rightarrow> (preprocessor, world) handler" where
  "notebook env preprocessor tag markup w =
     (case notebook_args markup of
        Inl e \<Rightarrow> (Inl e, w)
      | Inr (src, start_v, end_v, language) \<Rightarrow>
          (case src of
             None \<Rightarrow> (Inl (TypeError ''expected str, bytes or os.PathLike object, not NoneType''), w)
           | Some src \<Rightarrow>
               (let nb_dir = getConfig preprocessor ''NOTEBOOK_DIR'';
                    nb_path = path_join (path_join ''content'' nb_dir) src;
                    w = emit (PathExists nb_path) w
                in if \<not> os_path_exists env nb_path
                   then (Inl (ValueError (''File '' @ nb_path @ '' could not be found'')), w)
                   else
                     (let w = emit (OpenFile nb_path) w
                      in case read_notebook env nb_path of
                           Inl e \<Rightarrow> (Inl e, w)
                         | Inr nb_json \<Rightarrow>
                             (let w = emit (FromNotebookNode nb_path start_v end_v language) w
                              in case from_notebook_node env start_v end_v language nb_json of
                                   Inl e \<Rightarrow> (Inl e, w)
                                 | Inr (body, css) \<Rightarrow>
                                     (let resource_css = join_nl (css @ [CSS_INCLUDE env]);
                                          css_as_less = ''div#'' @ WRAPPER_ID @ '' { '' @ resource_css @ '' }''
                                      in case compile_css env css_as_less w of
                                           (Inl e, w) \<Rightarrow> (Inl e, w)
                                         | (Inr scoped_css, w) \<Rightarrow>
                                             (let augmented_body = join_nl [scoped_css, body, JS_INCLUDE env];
                                                  stashed_body = stash_store env (stash w) augmented_body;
                                                  w = emit (StashStore augmented_body) w;
                                                  w = w\<lparr>stash := stash w @ [augmented_body]\<rparr>
                                              in (Inr stashed_body, w))))))))"

section \<open>liquid\_tags.py\<close>

text \<open>
  The values of the settings dictionary that \<open>addLiquidTags\<close> meets, and the entries of
  a list of Markdown extensions: the name of an extension, the class \<open>LiquidTags\<close>
  itself, or an instance \<open>LiquidTags(configs)\<close>. A dictionary is an association list in
  insertion order.
\<close>

datatype setting =
    SStr string
  | SList "extension list"
  | SDict "(string \<times> setting) list"
and extension =
    ExtName string
  | LiquidTagsClass
  | LiquidTagsInstance "(string \<times> setting) list"

type_synonym dict = "(string \<times> setting) list"

text \<open>\<open>d[k] = v\<close>\<close>

fun dict_set :: "dict \<Rightarrow> string \<Rightarrow> setting \<Rightarrow> dict" where
  "dict_set [] k v = [(k, v)]"
| "dict_set ((k', v') # d) k v = (if k' = k then (k, v) # d else (k', v') # dict_set d k v)"

text \<open>\<open>LT_CONFIG = {'NOTEBOOK_DIR': 'notebooks'}\<close>\<close>

definition LT_CONFIG :: dict where
  "LT_CONFIG = [(''NOTEBOOK_DIR'', SStr ''notebooks'')]"

text \<open>
  Lines 21 to 24: the copy of \<open>LT_CONFIG\<close>, each of its keys overridden by the setting of
  that name.
\<close>

definition make_configs :: "dict \<Rightarrow> dict" where
  "make_configs settings =
     fold (\<lambda>k configs.
             case (map_of configs k, map_of settings k) of
               (Some _, Some v) \<Rightarrow> dict_set configs k v
             | _ \<Rightarrow> configs)
          (map fst settings) LT_CONFIG"

text \<open>
  \<open>addLiquidTags(gen)\<close>, as a function of \<open>gen.settings\<close>. \<open>ext_list\<close> is the list object
  stored in the settings, so the \<open>append\<close> on it is written back where the list came
  from. \<open>LiquidTags not in ext_list\<close> compares the class with each entry.
\<close>

definition addLiquidTags :: "dict \<Rightarrow> pyerr + dict" where
  "addLiquidTags settings =
     (case map_of settings ''MARKDOWN'' of
        Some markdown_conf \<Rightarrow>
          (case markdown_conf of
             SDict d \<Rightarrow>
               (let d = (case map_of d ''extensions'' of
                           None \<Rightarrow> dict_set d ''extensions'' (SList [])
                         | Some _ \<Rightarrow> d);
                    settings = dict_set settings ''MARKDOWN'' (SDict d)
                in case map_of d ''extensions'' of
                     Some (SList ext_list) \<Rightarrow>
                       if LiquidTagsClass \<notin> set ext_list
                       then Inr (dict_set settings ''MARKDOWN''
                                   (SDict (dict_set d ''extensions''
                                      (SList (ext_list @ [LiquidTagsInstance (make_configs settings)])))))
                       else Inr settings
                   | Some (SDict _) \<Rightarrow> Inl (AttributeError ''dict object has no attribute append'')
                   | _ \<Rightarrow> Inl (TypeError ''in <string> requires string as left operand''))
           | _ \<Rightarrow> Inl (AttributeError ''object has no attribute setdefault''))
      | None \<Rightarrow>
          (case map_of settings ''MD_EXTENSIONS'' of
             Some (SList ext_list) \<Rightarrow>
               if LiquidTagsClass \<notin> set ext_list
               then Inr (dict_set settings ''MD_EXTENSIONS''
                           (SList (ext_list @ [LiquidTagsInstance (make_configs settings)])))
               else Inr settings
           | Some (SDict _) \<Rightarrow> Inl (AttributeError ''dict object has no attribute append'')
           | Some (SStr _) \<Rightarrow> Inl (TypeError ''in <string> requires string as left operand'')
           | None \<Rightarrow>
               (let ext_list = [];
                    settings = dict_set settings ''MARKDOWN'' (SDict [(''extensions'', SList ext_list)])
                in if LiquidTagsClass \<notin> set ext_list
                   then Inr (dict_set settings ''MARKDOWN''
                               (SDict [(''extensions'',
                                        SList (ext_list @ [LiquidTagsInstance (make_configs settings)]))]))
                   else Inr settings)))"

text \<open>
  The list of Markdown extensions that the settings hold, where \<open>addLiquidTags\<close> looks
  for it.
\<close>

definition extensions_of :: "dict \<Rightarrow> extension list" where
  "extensions_of settings =
     (case map_of settings ''MARKDOWN'' of
        Some (SDict d) \<Rightarrow> (case map_of d ''extensions'' of Some (SList es) \<Rightarrow> es | _ \<Rightarrow> [])
      | Some _ \<Rightarrow> []
      | None \<Rightarrow> (case map_of settings ''MD_EXTENSIONS'' of Some (SList es) \<Rightarrow> es | _ \<Rightarrow> []))"

fun is_LiquidTags :: "extension \<Rightarrow> bool" where
  "is_LiquidTags (LiquidTagsInstance _) = True"
| "is_LiquidTags _ = False"

section \<open>The reassembly rule of the specification\<close>

text \<open>
  The tag name of a span's body: its first whitespace-delimited token. The argument
  text: what follows the token, stripped.
\<close>

definition span_body :: "string \<Rightarrow> string" where
  "span_body m = take (length m - 4) (drop 2 m)"

definition spec_tag_name :: "string \<Rightarrow> string" where
  "spec_tag_name body = takeWhile (\<lambda>c. \<not> isspace c) (dropWhile isspace body)"

definition spec_args :: "string \<Rightarrow> string" where
  "spec_args body = strip (dropWhile (\<lambda>c. \<not> isspace c) (dropWhile isspace body))"

definition has_token :: "string \<Rightarrow> bool" where
  "has_token body \<longleftrightarrow> list_ex (\<lambda>c. \<not> isspace c) body"

text \<open>
  The replacement of one span: the return value of the handler registered for its tag
  name, or the literal span.
\<close>

definition spec_replacement ::
  "('p, 'w) registry \<Rightarrow> 'p \<Rightarrow> string \<Rightarrow> 'w \<Rightarrow> (pyerr + string) \<times> 'w" where
  "spec_replacement tags self m w =
     (case tags (spec_tag_name (span_body m)) of
        None \<Rightarrow> (Inr m, w)
      | Some h \<Rightarrow> h self (spec_tag_name (span_body m)) (spec_args (span_body m)) w)"

text \<open>The replacements of the spans, the handlers called from left to right.\<close>

fun spec_replacements ::
  "('p, 'w) registry \<Rightarrow> 'p \<Rightarrow> string list \<Rightarrow> 'w \<Rightarrow> (pyerr + string list) \<times> 'w" where
  "spec_replacements tags self [] w = (Inr [], w)"
| "spec_replacements tags self (m # ms) w =
     (case spec_replacement tags self m w of
        (Inl e, w') \<Rightarrow> (Inl e, w')
      | (Inr r, w') \<Rightarrow>
          (case spec_replacements tags self ms w' of
             (Inl e, w'') \<Rightarrow> (Inl e, w'')
           | (Inr rs, w'') \<Rightarrow> (Inr (r # rs), w'')))"

text \<open>segment 0 + replacement 0 + segment 1 + replacement 1 + ... + segment n\<close>

fun alternate :: "string list \<Rightarrow> string list \<Rightarrow> string" where
  "alternate [] rs = []"
| "alternate (s # ss) [] = s"
| "alternate (s # ss) (r # rs) = s @ r @ alternate ss rs"

section \<open>Auxiliary definitions\<close>

text \<open>
  \<open>EXTRACT_TAG.match(markup).groups()[0]\<close> as \<open>run\<close> computes it, with \<open>None\<close> where the
  pattern does not match.
\<close>

definition extract_tag :: "string \<Rightarrow> string option" where
  "extract_tag markup =
     (case re_match EXTRACT_TAG markup of None \<Rightarrow> None | Some (k, c) \<Rightarrow> c ''1'')"

text \<open>\<open>EXTRACT_TAG\<close> after its leading \<open>\s*\<close>.\<close>

definition tag_tail :: re where
  "tag_tail = Cat (Cap ''1'' (Plus NonSpace)) (Cat (Star Space) (Lit []))"

text \<open>What is left of a span's body after the tag name and the whitespace around it.\<close>

definition after_tag :: "string \<Rightarrow> string" where
  "after_tag s = dropWhile isspace (dropWhile (\<lambda>c. \<not> isspace c) (dropWhile isspace s))"

text \<open>The first way \<open>r\<close> matches at \<open>s\<close>, in backtracking order.\<close>

definition rfirst :: "re \<Rightarrow> nat \<Rightarrow> string \<Rightarrow> caps \<Rightarrow> (string \<times> caps) option" where
  "rfirst r n s c = (case rmatch r n s c of [] \<Rightarrow> None | x # _ \<Rightarrow> Some x)"

text \<open>The decimal digit \<open>d\<close> as a character.\<close>

definition digit_char :: "nat \<Rightarrow> char" where
  "digit_char d = ''0123456789'' ! d"

text \<open>
  The decimal numeral of a natural number, as the author of a tag writes a bound
  (Python's \<open>str(n)\<close>).
\<close>

fun show_nat :: "nat \<Rightarrow> string" where
  "show_nat n = (if n < 10 then [digit_char n] else show_nat (n div 10) @ [digit_char (n mod 10)])"

declare show_nat.simps [simp del]

text \<open>The decimal numeral of an integer, with a minus sign if it is negative.\<close>

definition show_int :: "int \<Rightarrow> string" where
  "show_int i = (if i < 0 then ''-'' @ show_nat (nat (- i)) else show_nat (nat i))"

text \<open>
  The texts of a bound of the cell range: an optional minus sign and decimal digits,
  possibly none.
\<close>

definition bound_text :: "string \<Rightarrow> bool" where
  "bound_text b \<longleftrightarrow>
     (\<exists>sg ds. b = sg @ ds \<and> (sg = [] \<or> sg = ''-'') \<and> list_all (in_class digits) ds)"

text \<open>The pattern of a bound, \<open>-?[0-9]*\<close>.\<close>

definition bound_re :: re where
  "bound_re = cat [Opt (Lit ''-''), Star digits]"

text \<open>The \<open>cells[start:end]\<close> clause of \<open>FORMAT\<close>.\<close>

definition cells_re :: re where
  "cells_re = cat [Lit ''cells['', Cap ''start'' bound_re, Lit '':'', Cap ''end'' bound_re, Lit '']'']"

text \<open>The \<open>language[...]\<close> clause of \<open>FORMAT\<close>.\<close>

definition language_re :: re where
  "language_re = cat [Lit ''language['',
                Cap ''language''
                  (cat [Opt (Lit ''-''), Star (OneOf ''abcdefghijklmnopqrstuvwxyz0123456789+-'')]),
                Lit '']'']"

text \<open>What follows the \<open>cells\<close> clause in \<open>FORMAT\<close>.\<close>

definition format_tail :: re where
  "format_tail = Cat (Opt (Plus Space)) (Cat (Opt language_re) (Cat (Opt (Plus Space)) (Cat Eol (Lit []))))"

section \<open>Example handlers and collaborators\<close>

text \<open>A handler that returns a fixed text and records its call in the world.\<close>

definition recording_handler :: "string \<Rightarrow> (unit, (string \<times> string) list) handler" where
  "recording_handler r p t m w = (Inr r, w @ [(t, m)])"

text \<open>A handler that raises.\<close>

definition failing_handler :: "(unit, (string \<times> string) list) handler" where
  "failing_handler p t m w = (Inl (Exception ''handler failed''), w)"

text \<open>
  Collaborators for which the LESS compiler fails with the clean-css plugin and works
  without it.
\<close>

definition example_env :: "unit env" where
  "example_env =
     \<lparr>CSS_INCLUDE = ''p{}'',
      JS_INCLUDE = ''<script></script>'',
      os_path_exists = (\<lambda>p. True),
      read_notebook = (\<lambda>p. Inr ()),
      from_notebook_node = (\<lambda>s e l nb. Inr (''<div>body</div>'', [''a{}''])),
      subprocess_run = (\<lambda>args inp. if args = [''lessc'', ''-'', ''--clean-css'']
                                     then Inr (1, []) else Inr (0, ''div#nb-wrapper a{}'')),
      stash_store = (\<lambda>st content. ''TOKEN'')\<rparr>"

definition example_world :: world where
  "example_world = \<lparr>log = [], stash = []\<rparr>"

section \<open>Lemmas on the regular expressions\<close>

lemma in_class_NonSpace: "in_class NonSpace = (\<lambda>c. \<not> isspace c)"
  by (rule ext) simp

lemma in_class_Space: "in_class Space = isspace"
  by (rule ext) simp

lemma star_results_hd: "\<exists>rest. star_results P s = dropWhile P s # rest"
  by (induction s) auto

lemma star_results_suffix:
  "s' \<in> set (star_results P s) \<Longrightarrow> \<exists>p. s = p @ s'"
proof (induction s)
  case Nil
  then show ?case by simp
next
  case (Cons x xs)
  then show ?case
    by (auto split: if_splits)
qed

lemma take_takeWhile_length:
  "take (length s - length (dropWhile P s)) s = takeWhile P s"
proof -
  have "length s - length (dropWhile P s) = length (takeWhile P s)"
    by (metis add_diff_cancel_right' length_append takeWhile_dropWhile_id)
  then show ?thesis
    by (metis append_eq_conv_conj takeWhile_dropWhile_id)
qed

lemma drop_suffix_length: "s = p @ s' \<Longrightarrow> drop (length s - length s') s = s'"
  by simp

text \<open>The scan loses no text: the pieces and the matches, in order, are the subject.\<close>

lemma re_scan_reassemble:
  "re_scan r n seg s = (ps, t) \<Longrightarrow> concat (map (\<lambda>(a, b). a @ b) ps) @ t = seg @ s"
proof (induction r n seg s arbitrary: ps t rule: re_scan.induct)
  case (1 r n seg)
  then show ?case by simp
next
  case (2 r n seg x xs)
  show ?case
  proof (cases "re_match_at r n (x # xs)")
    case None
    with 2 show ?thesis by auto
  next
    case (Some kc)
    obtain k c where kc: "kc = (k, c)" by (cases kc)
    show ?thesis
    proof (cases k)
      case 0
      with 2 Some kc show ?thesis by auto
    next
      case (Suc j)
      obtain ps' t' where rec: "re_scan r n [] (drop j xs) = (ps', t')"
        by (cases "re_scan r n [] (drop j xs)")
      from "2.IH" Some kc Suc rec
      have ih: "concat (map (\<lambda>(a, b). a @ b) ps') @ t' = drop j xs" by auto
      from "2.prems" Some kc Suc rec have "ps = (seg, x # take j xs) # ps'" "t = t'"
        by simp_all
      with ih show ?thesis by simp
    qed
  qed
qed

lemma alternate_pairs:
  "alternate (map fst ps @ [t]) (map snd ps) = concat (map (\<lambda>(a, b). a @ b) ps) @ t"
  by (induction ps) auto

lemma chain_zip_alternate:
  "length rs = length ss \<Longrightarrow> concat (chain_zip (ss @ [t]) (rs @ [[]])) = alternate (ss @ [t]) rs"
  by (induction ss arbitrary: rs) (auto simp: chain_zip_def length_Suc_conv)

lemma split_findall_length: "length (re_split r s) = Suc (length (re_findall r s))"
  by (simp add: re_split_def re_findall_def split: prod.splits)

lemma alternate_split_findall: "alternate (re_split r s) (re_findall r s) = s"
proof -
  obtain ps t where sc: "re_scan r (length s) [] s = (ps, t)"
    by (cases "re_scan r (length s) [] s")
  from re_scan_reassemble [OF sc] show ?thesis
    by (simp add: re_split_def re_findall_def sc alternate_pairs)
qed

section \<open>Lemmas on the tag name\<close>

lemma EXTRACT_TAG_unfold: "EXTRACT_TAG = Cat (Star Space) tag_tail"
  by (simp add: EXTRACT_TAG_def cat_def tag_tail_def)

lemma tag_tail_fail:
  "s = [] \<or> isspace (hd s) \<Longrightarrow> rmatch tag_tail n s c = []"
  by (cases s) (auto simp: tag_tail_def in_class_NonSpace)

lemma tag_tail_first:
  assumes "s \<noteq> []" "\<not> isspace (hd s)"
  shows "\<exists>rest. rmatch tag_tail n s c =
           (dropWhile isspace (dropWhile (\<lambda>c. \<not> isspace c) s),
            c(''1'' \<mapsto> takeWhile (\<lambda>c. \<not> isspace c) s)) # rest"
proof -
  obtain x xs where s: "s = x # xs" using assms(1) by (cases s) auto
  with assms(2) have nx: "\<not> isspace x" by simp
  obtain r1 where r1: "star_results (\<lambda>c. \<not> isspace c) xs = dropWhile (\<lambda>c. \<not> isspace c) xs # r1"
    using star_results_hd by blast
  let ?s2 = "dropWhile (\<lambda>c. \<not> isspace c) s"
  have s2: "?s2 = dropWhile (\<lambda>c. \<not> isspace c) xs" using s nx by simp
  obtain r2 where r2: "star_results isspace ?s2 = dropWhile isspace ?s2 # r2"
    using star_results_hd by blast
  have tk: "take (length s - length ?s2) s = takeWhile (\<lambda>c. \<not> isspace c) s"
    by (rule take_takeWhile_length)
  have "rmatch (Cap ''1'' (Plus NonSpace)) n s c =
          (?s2, c(''1'' \<mapsto> takeWhile (\<lambda>c. \<not> isspace c) s))
          # map (\<lambda>(s', c'). (s', c'(''1'' \<mapsto> take (length s - length s') s))) (map (\<lambda>s'. (s', c)) r1)"
    using s nx r1 tk s2 by (simp add: in_class_NonSpace)
  moreover have "\<exists>rest. rmatch (Cat (Star Space) (Lit [])) n ?s2 c' = (dropWhile isspace ?s2, c') # rest" for c'
    using r2 by (simp add: in_class_Space)
  ultimately show ?thesis
    unfolding tag_tail_def by (simp del: rmatch.simps(2,3,7) add: rmatch.simps(6)) (metis append_Cons)
qed

lemma has_token_dropWhile:
  "has_token s \<longleftrightarrow> dropWhile isspace s \<noteq> []"
  by (induction s) (auto simp: has_token_def)

lemma EXTRACT_TAG_none:
  assumes "\<not> has_token s"
  shows "re_match_at EXTRACT_TAG n s = None"
proof -
  have "rmatch tag_tail n s' c = []" if "s' \<in> set (star_results isspace s)" for s' c
  proof -
    from that obtain p where "s = p @ s'" using star_results_suffix by blast
    with assms have "s' = [] \<or> isspace (hd s')"
      by (cases s') (auto simp: has_token_def list_ex_iff)
    then show ?thesis by (rule tag_tail_fail)
  qed
  then have "rmatch EXTRACT_TAG n s Map.empty = []"
    by (auto simp: EXTRACT_TAG_unfold in_class_Space)
  then show ?thesis by (simp add: re_match_at_def)
qed

lemma after_tag_suffix: "\<exists>p. s = p @ after_tag s"
  unfolding after_tag_def by (metis append.assoc takeWhile_dropWhile_id)

lemma EXTRACT_TAG_some:
  assumes "has_token s"
  shows "re_match_at EXTRACT_TAG n s =
           Some (length s - length (after_tag s), [''1'' \<mapsto> spec_tag_name s])"
proof -
  let ?s1 = "dropWhile isspace s"
  from assms have ne: "?s1 \<noteq> []" by (simp add: has_token_dropWhile)
  then have hd: "\<not> isspace (hd ?s1)" by (rule hd_dropWhile)
  obtain r0 where r0: "star_results isspace s = ?s1 # r0"
    using star_results_hd by blast
  obtain r1 where r1: "rmatch tag_tail n ?s1 Map.empty =
      (after_tag s, [''1'' \<mapsto> spec_tag_name s]) # r1"
    using tag_tail_first [OF ne hd, of n Map.empty]
    by (auto simp: after_tag_def spec_tag_name_def)
  have "\<exists>rest. rmatch EXTRACT_TAG n s Map.empty = (after_tag s, [''1'' \<mapsto> spec_tag_name s]) # rest"
    by (simp add: EXTRACT_TAG_unfold in_class_Space r0 r1)
  then show ?thesis by (auto simp: re_match_at_def)
qed

lemma EXTRACT_TAG_sub:
  assumes "has_token s"
  shows "re_sub1 EXTRACT_TAG [] s = after_tag s"
proof -
  from assms have "s \<noteq> []" by (auto simp: has_token_def)
  then obtain x xs where s: "s = x # xs" by (cases s) auto
  have "re_search EXTRACT_TAG s = Some (0, length s - length (after_tag s), [''1'' \<mapsto> spec_tag_name s])"
    unfolding re_search_def using EXTRACT_TAG_some [OF assms, of "length s"]
    by (simp add: s)
  moreover have "drop (length s - length (after_tag s)) s = after_tag s"
    using after_tag_suffix [of s] by (metis drop_suffix_length)
  ultimately show ?thesis by (simp add: re_sub1_def)
qed

lemma strip_after_tag: "strip (after_tag s) = spec_args s"
  by (simp add: strip_def after_tag_def spec_args_def)

lemma extract_tag_eq:
  "extract_tag s = (if has_token s then Some (spec_tag_name s) else None)"
  using EXTRACT_TAG_some [of s "length s"] EXTRACT_TAG_none [of s "length s"]
  by (simp add: extract_tag_def re_match_def)

section \<open>Lemmas on the preprocessor\<close>

lemma run_loop_length:
  "run_loop tags self ms w = (Inr rs, w') \<Longrightarrow> length rs = length ms"
  by (induction ms arbitrary: w rs w')
     (auto simp: Let_def split: option.splits prod.splits sum.splits)

text \<open>Where every span has a tag name, the loop computes the replacements of the rule.\<close>

lemma run_loop_spec:
  "\<forall>m \<in> set ms. has_token (span_body m) \<Longrightarrow>
     run_loop tags self ms w = spec_replacements tags self ms w"
proof (induction ms arbitrary: w)
  case Nil
  then show ?case by simp
next
  case (Cons m ms)
  then have tok: "has_token (span_body m)" and rest: "\<forall>m \<in> set ms. has_token (span_body m)"
    by simp_all
  have ih: "run_loop tags self ms w' = spec_replacements tags self ms w'" for w'
    using Cons.IH [OF rest] .
  have m1: "re_match EXTRACT_TAG (take (length m - 4) (drop 2 m)) =
              Some (length (span_body m) - length (after_tag (span_body m)),
                    [''1'' \<mapsto> spec_tag_name (span_body m)])"
    using EXTRACT_TAG_some [OF tok] by (simp add: re_match_def span_body_def)
  have m2: "re_sub1 EXTRACT_TAG [] (take (length m - 4) (drop 2 m)) = after_tag (span_body m)"
    using EXTRACT_TAG_sub [OF tok] by (simp add: span_body_def)
  show ?case
    by (simp add: m1 m2 ih strip_after_tag spec_replacement_def Let_def
        split: option.splits prod.splits sum.splits)
qed

lemma split_nl_no_newline: "CHR 0x0A \<notin> set l \<Longrightarrow> split_nl l = [l]"
  by (induction l) auto

lemma split_nl_line:
  "CHR 0x0A \<notin> set l \<Longrightarrow> split_nl (l @ CHR 0x0A # r) = l # split_nl r"
  by (induction l) auto

lemma split_join_nl:
  "lines \<noteq> [] \<Longrightarrow> \<forall>l \<in> set lines. CHR 0x0A \<notin> set l \<Longrightarrow> split_nl (join_nl lines) = lines"
proof (induction lines rule: join_nl.induct)
  case 1
  then show ?case by simp
next
  case (2 l)
  then show ?case by (simp add: split_nl_no_newline)
next
  case (3 l v va)
  then show ?case by (simp add: split_nl_line)
qed

lemma split_nl_nonempty: "split_nl s \<noteq> []"
  by (induction s) (auto split: list.splits)

lemma join_split_nl: "join_nl (split_nl s) = s"
proof (induction s)
  case Nil
  then show ?case by simp
next
  case (Cons c cs)
  obtain l ls where sp: "split_nl cs = l # ls"
    using split_nl_nonempty [of cs] by (cases "split_nl cs") auto
  show ?case
  proof (cases "c = CHR 0x0A")
    case True
    with Cons sp show ?thesis by simp
  next
    case False
    with Cons sp show ?thesis by (cases ls) auto
  qed
qed

text \<open>\<open>run\<close> in terms of its loop and of the reassembly rule.\<close>

lemma run_reassemble:
  "run tags self lines w =
     (case run_loop tags self (re_findall LIQUID_TAG (join_nl lines)) w of
        (Inl e, w') \<Rightarrow> (Inl e, w')
      | (Inr reps, w') \<Rightarrow>
          (Inr (split_nl (alternate (re_split LIQUID_TAG (join_nl lines)) reps)), w'))"
proof -
  let ?page = "join_nl lines"
  obtain ps t where sc: "re_scan LIQUID_TAG (length ?page) [] ?page = (ps, t)"
    by (cases "re_scan LIQUID_TAG (length ?page) [] ?page")
  have fa: "re_findall LIQUID_TAG ?page = map snd ps" by (simp add: re_findall_def sc)
  have sp: "re_split LIQUID_TAG ?page = map fst ps @ [t]" by (simp add: re_split_def sc)
  show ?thesis
  proof (cases "run_loop tags self (map snd ps) w")
    case (Pair res w')
    show ?thesis
    proof (cases res)
      case (Inl e)
      with Pair show ?thesis by (simp add: run_def fa)
    next
      case (Inr reps)
      with Pair have "length reps = length (map fst ps)"
        using run_loop_length [of tags self "map snd ps" w reps w'] by simp
      then have "concat (chain_zip (map fst ps @ [t]) (reps @ [[]])) = alternate (map fst ps @ [t]) reps"
        by (rule chain_zip_alternate)
      with Pair Inr show ?thesis by (simp add: run_def fa sp)
    qed
  qed
qed

text \<open>A span whose tag name is not registered is left as it is by the loop.\<close>

lemma run_loop_unregistered_nth:
  "run_loop tags self ms w = (Inr rs, w') \<Longrightarrow> i < length ms \<Longrightarrow>
   extract_tag (span_body (ms ! i)) = Some t \<Longrightarrow> tags t = None \<Longrightarrow> rs ! i = ms ! i"
proof (induction ms arbitrary: w rs w' i)
  case Nil
  then show ?case by simp
next
  case (Cons m ms)
  show ?case
  proof (cases i)
    case 0
    with Cons.prems show ?thesis
      by (auto simp: Let_def extract_tag_def span_body_def
          split: option.splits prod.splits sum.splits)
  next
    case (Suc j)
    with Cons.prems Cons.IH [of _ _ _ j] show ?thesis
      by (auto simp: Let_def split: option.splits prod.splits sum.splits)
  qed
qed

lemma spec_replacements_unregistered:
  "\<forall>m \<in> set ms. tags (spec_tag_name (span_body m)) = None \<Longrightarrow>
     spec_replacements tags self ms w = (Inr ms, w)"
  by (induction ms) (auto simp: spec_replacement_def)

section \<open>Lemmas on the notebook tag\<close>

lemma rfirst_Cat:
  "rfirst r1 n s c = Some (s1, c1) \<Longrightarrow> rfirst r2 n s1 c1 = Some x \<Longrightarrow>
     rfirst (Cat r1 r2) n s c = Some x"
  by (auto simp: rfirst_def split: list.splits)

lemma rfirst_Cat_none:
  "rfirst r1 n s c = None \<Longrightarrow> rfirst (Cat r1 r2) n s c = None"
  by (auto simp: rfirst_def split: list.splits)

lemma rfirst_Opt_some:
  "rfirst r n s c = Some x \<Longrightarrow> rfirst (Opt r) n s c = Some x"
  by (auto simp: rfirst_def split: list.splits)

lemma rfirst_Opt_none:
  "rfirst r n s c = None \<Longrightarrow> rfirst (Opt r) n s c = Some (s, c)"
  by (auto simp: rfirst_def split: list.splits)

lemma rfirst_Lit: "rfirst (Lit l) n (l @ s) c = Some (s, c)"
  by (simp add: rfirst_def)

lemma rfirst_Lit_none: "take (length l) s \<noteq> l \<Longrightarrow> rfirst (Lit l) n s c = None"
  by (simp add: rfirst_def)

lemma rfirst_Star: "rfirst (Star k) n s c = Some (dropWhile (in_class k) s, c)"
  using star_results_hd [of "in_class k" s] by (auto simp: rfirst_def)

lemma rfirst_Plus:
  "s \<noteq> [] \<Longrightarrow> in_class k (hd s) \<Longrightarrow> rfirst (Plus k) n s c = Some (dropWhile (in_class k) s, c)"
  using star_results_hd [of "in_class k" "tl s"] by (cases s) (auto simp: rfirst_def)

lemma rfirst_Plus_none:
  "s = [] \<or> \<not> in_class k (hd s) \<Longrightarrow> rfirst (Plus k) n s c = None"
  by (cases s) (auto simp: rfirst_def)

lemma rfirst_Cap:
  "rfirst r n s c = Some (s', c') \<Longrightarrow>
     rfirst (Cap g r) n s c = Some (s', c'(g \<mapsto> take (length s - length s') s))"
  by (auto simp: rfirst_def split: list.splits)

lemma rfirst_Bol: "length s = n \<Longrightarrow> rfirst Bol n s c = Some (s, c)"
  by (simp add: rfirst_def)

lemma rfirst_Eol: "rfirst Eol n [] c = Some ([], c)"
  by (simp add: rfirst_def)

lemma re_match_at_rfirst:
  "rfirst r n s Map.empty = Some (s', c) \<Longrightarrow> re_match_at r n s = Some (length s - length s', c)"
  by (auto simp: rfirst_def re_match_at_def split: list.splits)

lemma re_search_rfirst:
  "rfirst r (length s) s Map.empty = Some (s', c) \<Longrightarrow>
     re_search r s = Some (0, length s - length s', c)"
  by (cases s) (auto simp: re_search_def dest: re_match_at_rfirst)

lemma digit_char_cases:
  "d < 10 \<Longrightarrow> digit_char d \<in> set ''0123456789'' \<and> digit_val (digit_char d) = Some d"
proof -
  assume "d < 10"
  then have "d = 0 \<or> d = 1 \<or> d = 2 \<or> d = 3 \<or> d = 4 \<or> d = 5 \<or> d = 6 \<or> d = 7 \<or> d = 8 \<or> d = 9"
    by arith
  then show ?thesis
    by (elim disjE) (simp_all add: digit_char_def digit_val_def)
qed

lemma show_nat_digits: "set (show_nat n) \<subseteq> set ''0123456789''"
proof (induction n rule: show_nat.induct)
  case (1 n)
  show ?case
  proof (cases "n < 10")
    case True
    then show ?thesis using digit_char_cases [of n] by (subst show_nat.simps) simp
  next
    case False
    then have "n mod 10 < 10" by simp
    with False 1 show ?thesis
      using digit_char_cases [of "n mod 10"] by (subst show_nat.simps) simp
  qed
qed

lemma show_nat_nonempty: "show_nat n \<noteq> []"
  by (subst show_nat.simps) simp

lemma decimal_snoc:
  "decimal a (xs @ [c]) =
     (case decimal a xs of
        None \<Rightarrow> None
      | Some v \<Rightarrow> (case digit_val c of None \<Rightarrow> None | Some d \<Rightarrow> Some (10 * v + d)))"
  by (induction xs arbitrary: a) (auto split: option.splits)

lemma decimal_show_nat: "decimal 0 (show_nat n) = Some n"
proof (induction n rule: show_nat.induct)
  case (1 n)
  show ?case
  proof (cases "n < 10")
    case True
    then show ?thesis using digit_char_cases [of n] by (subst show_nat.simps) simp
  next
    case False
    then have "n mod 10 < 10" by simp
    with False 1 show ?thesis
      using digit_char_cases [of "n mod 10"]
      by (subst show_nat.simps) (simp add: decimal_snoc)
  qed
qed

lemma show_nat_no_minus: "hd (show_nat n) \<noteq> CHR ''-''"
proof -
  have "hd (show_nat n) \<in> set (show_nat n)" using show_nat_nonempty by simp
  with show_nat_digits have "hd (show_nat n) \<in> set ''0123456789''" by blast
  then show ?thesis by auto
qed

lemma py_int_show_int: "py_int (show_int i) = Inr i"
proof (cases "i < 0")
  case True
  then show ?thesis
    by (simp add: py_int_def show_int_def decimal_show_nat show_nat_nonempty)
next
  case False
  obtain x xs where sn: "show_nat (nat i) = x # xs"
    using show_nat_nonempty [of "nat i"] by (cases "show_nat (nat i)") auto
  with show_nat_no_minus [of "nat i"] have "x \<noteq> CHR ''-''" by simp
  with False sn decimal_show_nat [of "nat i"] show ?thesis
    by (simp add: py_int_def show_int_def)
qed

lemma show_int_nonempty: "show_int i \<noteq> []"
  by (simp add: show_int_def show_nat_nonempty)

text \<open>A lone minus sign is the decimal numeral of no integer, and \<open>int\<close> refuses it.\<close>

lemma py_int_lone_minus:
  "py_int ''-'' =
     Inl (ValueError (''invalid literal for int() with base 10: '' @ [CHR 0x27] @ ''-'' @ [CHR 0x27]))"
  by code_simp

lemma show_int_not_lone_minus: "show_int i \<noteq> ''-''"
proof
  assume "show_int i = ''-''"
  with py_int_show_int [of i] have "py_int ''-'' = Inr i" by simp
  with py_int_lone_minus show False by simp
qed

lemma bound_text_empty: "bound_text []"
  unfolding bound_text_def by (rule exI [of _ "[]"], rule exI [of _ "[]"]) simp

lemma show_nat_all_digits: "list_all (in_class digits) (show_nat n)"
proof -
  have "\<forall>c \<in> set (show_nat n). c \<in> set ''0123456789''"
    using show_nat_digits by blast
  then show ?thesis
    unfolding list_all_iff digits_def in_class.simps .
qed

lemma bound_text_show_int: "bound_text (show_int i)"
proof (cases "i < 0")
  case True
  then have "show_int i = ''-'' @ show_nat (nat (- i))" by (simp add: show_int_def)
  with show_nat_all_digits show ?thesis
    unfolding bound_text_def by blast
next
  case False
  then have "show_int i = [] @ show_nat (nat i)" by (simp add: show_int_def)
  with show_nat_all_digits show ?thesis
    unfolding bound_text_def by blast
qed

lemma dropWhile_digits:
  "list_all (in_class digits) ds \<Longrightarrow> \<not> in_class digits c0 \<Longrightarrow>
     dropWhile (in_class digits) (ds @ c0 # t) = c0 # t"
  by (induction ds) simp_all

lemma minus_not_digit: "\<not> in_class digits CHR ''-''"
  by (simp add: digits_def)

lemma FORMAT_unfold:
  "FORMAT = Cat Bol (Cat (Opt (Plus Space)) (Cat (Cap ''src'' (Plus NonSpace))
              (Cat (Opt (Plus Space)) (Cat (Opt cells_re) (Cat (Opt (Plus Space))
                (Cat (Opt language_re) (Cat (Opt (Plus Space)) (Cat Eol (Lit [])))))))))"
  unfolding FORMAT_def cat_def cells_re_def language_re_def bound_re_def by simp

lemma rfirst_sign:
  assumes "sg = [] \<or> sg = ''-''" "list_all (in_class digits) ds" "c0 \<noteq> CHR ''-''"
  shows "rfirst (Opt (Lit ''-'')) n (sg @ ds @ c0 # t) c = Some (ds @ c0 # t, c)"
proof (cases "sg = []")
  case True
  have "hd (ds @ c0 # t) \<noteq> CHR ''-''"
  proof (cases ds)
    case Nil
    with assms(3) show ?thesis by simp
  next
    case (Cons d ds')
    with assms(2) have "in_class digits d" by simp
    with minus_not_digit have "d \<noteq> CHR ''-''" by blast
    with Cons show ?thesis by simp
  qed
  then have "take (length ''-'') (ds @ c0 # t) \<noteq> ''-''"
    by (cases "ds @ c0 # t") simp_all
  then have "rfirst (Lit ''-'') n (ds @ c0 # t) c = None" by (rule rfirst_Lit_none)
  then have "rfirst (Opt (Lit ''-'')) n (ds @ c0 # t) c = Some (ds @ c0 # t, c)"
    by (rule rfirst_Opt_none)
  with True show ?thesis by simp
next
  case False
  with assms(1) have m: "sg = ''-''" by simp
  have "rfirst (Lit ''-'') n (''-'' @ (ds @ c0 # t)) c = Some (ds @ c0 # t, c)"
    by (rule rfirst_Lit)
  then have "rfirst (Opt (Lit ''-'')) n (''-'' @ (ds @ c0 # t)) c = Some (ds @ c0 # t, c)"
    by (rule rfirst_Opt_some)
  with m show ?thesis by simp
qed

lemma rfirst_digits:
  assumes "list_all (in_class digits) ds" "\<not> in_class digits c0"
  shows "rfirst (Cat (Star digits) (Lit [])) n (ds @ c0 # t) c = Some (c0 # t, c)"
proof (rule rfirst_Cat)
  show "rfirst (Star digits) n (ds @ c0 # t) c = Some (c0 # t, c)"
    unfolding rfirst_Star dropWhile_digits [OF assms] ..
  show "rfirst (Lit []) n (c0 # t) c = Some (c0 # t, c)"
    by (simp add: rfirst_def)
qed

lemma rfirst_bound:
  assumes "bound_text b" "\<not> in_class digits c0" "c0 \<noteq> CHR ''-''"
  shows "rfirst (Cap g bound_re) n (b @ c0 # t) c = Some (c0 # t, c(g \<mapsto> b))"
proof -
  from assms(1) obtain sg ds where b: "b = sg @ ds" and sg: "sg = [] \<or> sg = ''-''"
    and ds: "list_all (in_class digits) ds"
    unfolding bound_text_def by blast
  have "rfirst (Cat (Opt (Lit ''-'')) (Cat (Star digits) (Lit []))) n (sg @ ds @ c0 # t) c
          = Some (c0 # t, c)"
    using rfirst_sign [OF sg ds assms(3)] rfirst_digits [OF ds assms(2)] by (rule rfirst_Cat)
  then have "rfirst bound_re n (b @ c0 # t) c = Some (c0 # t, c)"
    unfolding bound_re_def cat_def b by simp
  from rfirst_Cap [OF this, of g] show ?thesis by simp
qed

lemma rfirst_cells:
  assumes "bound_text a" "bound_text b"
  shows "rfirst cells_re n (''cells['' @ a @ '':'' @ b @ '']'') c
           = Some ([], c(''start'' \<mapsto> a, ''end'' \<mapsto> b))"
proof -
  have nd1: "\<not> in_class digits CHR '':''" and nd2: "\<not> in_class digits CHR '']''"
    by (simp_all add: digits_def)
  have 1: "rfirst (Lit ''cells['') n (''cells['' @ (a @ CHR '':'' # (b @ [CHR '']'']))) c
             = Some (a @ CHR '':'' # (b @ [CHR '']'']), c)"
    by (rule rfirst_Lit)
  have 2: "rfirst (Cap ''start'' bound_re) n (a @ CHR '':'' # (b @ [CHR '']''])) c
             = Some (CHR '':'' # (b @ [CHR '']'']), c(''start'' \<mapsto> a))"
    by (rule rfirst_bound [OF assms(1) nd1]) simp
  have 3: "rfirst (Lit '':'') n ('':'' @ (b @ [CHR '']''])) (c(''start'' \<mapsto> a))
             = Some (b @ [CHR '']''], c(''start'' \<mapsto> a))"
    by (rule rfirst_Lit)
  have 4: "rfirst (Cap ''end'' bound_re) n (b @ CHR '']'' # []) (c(''start'' \<mapsto> a))
             = Some (CHR '']'' # [], c(''start'' \<mapsto> a, ''end'' \<mapsto> b))"
    by (rule rfirst_bound [OF assms(2) nd2]) simp
  have 5: "rfirst (Cat (Lit '']'') (Lit [])) n (CHR '']'' # []) c' = Some ([], c')" for c'
    by (simp add: rfirst_def)
  have 45: "rfirst (Cat (Cap ''end'' bound_re) (Cat (Lit '']'') (Lit []))) n (b @ CHR '']'' # [])
               (c(''start'' \<mapsto> a)) = Some ([], c(''start'' \<mapsto> a, ''end'' \<mapsto> b))"
    using 4 5 by (rule rfirst_Cat)
  have m3: "rfirst (Lit '':'') n (CHR '':'' # (b @ [CHR '']''])) (c(''start'' \<mapsto> a))
             = Some (b @ CHR '']'' # [], c(''start'' \<mapsto> a))"
    using 3 by simp
  have 345: "rfirst (Cat (Lit '':'') (Cat (Cap ''end'' bound_re) (Cat (Lit '']'') (Lit [])))) n
               (CHR '':'' # (b @ [CHR '']''])) (c(''start'' \<mapsto> a))
             = Some ([], c(''start'' \<mapsto> a, ''end'' \<mapsto> b))"
    using m3 45 by (rule rfirst_Cat)
  have 2345: "rfirst (Cat (Cap ''start'' bound_re) (Cat (Lit '':'') (Cat (Cap ''end'' bound_re)
                 (Cat (Lit '']'') (Lit []))))) n (a @ CHR '':'' # (b @ [CHR '']''])) c
             = Some ([], c(''start'' \<mapsto> a, ''end'' \<mapsto> b))"
    using 2 345 by (rule rfirst_Cat)
  have "rfirst (Cat (Lit ''cells['') (Cat (Cap ''start'' bound_re) (Cat (Lit '':'')
          (Cat (Cap ''end'' bound_re) (Cat (Lit '']'') (Lit [])))))) n
            (''cells['' @ (a @ CHR '':'' # (b @ [CHR '']'']))) c
          = Some ([], c(''start'' \<mapsto> a, ''end'' \<mapsto> b))"
    using 1 2345 by (rule rfirst_Cat)
  then show ?thesis
    unfolding cells_re_def cat_def by simp
qed

lemma rfirst_format_tail: "rfirst format_tail n [] c = Some ([], c)"
  by (simp add: format_tail_def rfirst_def language_re_def cat_def)

lemma rfirst_no_clauses:
  "rfirst (Cat (Opt (Plus Space)) (Cat (Opt cells_re) format_tail)) n [] c = Some ([], c)"
proof -
  have 1: "rfirst (Opt (Plus Space)) n [] c = Some ([], c)"
    by (simp add: rfirst_def)
  have 2: "rfirst (Opt cells_re) n [] c = Some ([], c)"
    by (simp add: rfirst_def cells_re_def cat_def)
  from 1 rfirst_Cat [OF 2 rfirst_format_tail] show ?thesis by (rule rfirst_Cat)
qed

lemma rfirst_cells_clause:
  assumes "bound_text a" "bound_text b"
  shows "rfirst (Cat (Opt (Plus Space)) (Cat (Opt cells_re) format_tail)) n
           (CHR '' '' # ''cells['' @ a @ '':'' @ b @ '']'') c
         = Some ([], c(''start'' \<mapsto> a, ''end'' \<mapsto> b))"
proof -
  let ?C = "''cells['' @ a @ '':'' @ b @ '']''"
  have sp: "isspace CHR '' ''" and nsp: "\<not> isspace CHR ''c''"
    by (simp_all add: isspace_def)
  have "rfirst (Plus Space) n (CHR '' '' # ?C) c = Some (dropWhile (in_class Space) (CHR '' '' # ?C), c)"
    using sp by (intro rfirst_Plus) simp_all
  moreover have "dropWhile (in_class Space) (CHR '' '' # ?C) = ?C"
    using sp nsp by simp
  ultimately have "rfirst (Plus Space) n (CHR '' '' # ?C) c = Some (?C, c)" by simp
  then have 1: "rfirst (Opt (Plus Space)) n (CHR '' '' # ?C) c = Some (?C, c)"
    by (rule rfirst_Opt_some)
  have 2: "rfirst (Opt cells_re) n ?C c = Some ([], c(''start'' \<mapsto> a, ''end'' \<mapsto> b))"
    using rfirst_cells [OF assms] by (rule rfirst_Opt_some)
  from 1 rfirst_Cat [OF 2 rfirst_format_tail] show ?thesis by (rule rfirst_Cat)
qed

lemma rfirst_src:
  assumes "src \<noteq> []" "list_all (\<lambda>c. \<not> isspace c) src" "R = [] \<or> isspace (hd R)"
    and "rfirst X (length (src @ R)) R [''src'' \<mapsto> src] = Some x"
  shows "rfirst (Cat Bol (Cat (Opt (Plus Space)) (Cat (Cap ''src'' (Plus NonSpace)) X)))
           (length (src @ R)) (src @ R) Map.empty = Some x"
proof -
  let ?n = "length (src @ R)"
  obtain y ys where src: "src = y # ys" using assms(1) by (cases src) auto
  with assms(2) have ny: "\<not> isspace y" by simp
  have 1: "rfirst Bol ?n (src @ R) Map.empty = Some (src @ R, Map.empty)"
    by (rule rfirst_Bol) simp
  have "rfirst (Plus Space) ?n (src @ R) Map.empty = None"
    using src ny by (intro rfirst_Plus_none) simp
  then have 2: "rfirst (Opt (Plus Space)) ?n (src @ R) Map.empty = Some (src @ R, Map.empty)"
    by (rule rfirst_Opt_none)
  have dw: "dropWhile (in_class NonSpace) (src @ R) = R"
  proof -
    have "dropWhile (in_class NonSpace) (src @ R) = dropWhile (in_class NonSpace) R"
      using assms(2) by (intro dropWhile_append2) (simp add: list_all_iff)
    also have "\<dots> = R" using assms(3) by (cases R) auto
    finally show ?thesis .
  qed
  have "rfirst (Plus NonSpace) ?n (src @ R) Map.empty
          = Some (dropWhile (in_class NonSpace) (src @ R), Map.empty)"
    using src ny by (intro rfirst_Plus) simp_all
  then have "rfirst (Plus NonSpace) ?n (src @ R) Map.empty = Some (R, Map.empty)"
    by (simp only: dw)
  from rfirst_Cap [OF this, of "''src''"]
  have 3: "rfirst (Cap ''src'' (Plus NonSpace)) ?n (src @ R) Map.empty = Some (R, [''src'' \<mapsto> src])"
    by simp
  from 1 rfirst_Cat [OF 2 rfirst_Cat [OF 3 assms(4)]] show ?thesis by (rule rfirst_Cat)
qed

lemma FORMAT_tail_unfold:
  "FORMAT = Cat Bol (Cat (Opt (Plus Space)) (Cat (Cap ''src'' (Plus NonSpace))
              (Cat (Opt (Plus Space)) (Cat (Opt cells_re) format_tail))))"
  unfolding FORMAT_unfold format_tail_def ..

lemma search_cells:
  assumes "src \<noteq> []" "list_all (\<lambda>c. \<not> isspace c) src" "bound_text a" "bound_text b"
  shows "\<exists>k. re_search FORMAT (src @ '' cells['' @ a @ '':'' @ b @ '']'')
           = Some (0, k, [''src'' \<mapsto> src, ''start'' \<mapsto> a, ''end'' \<mapsto> b])"
proof -
  let ?R = "CHR '' '' # ''cells['' @ a @ '':'' @ b @ '']''"
  have sp: "?R = [] \<or> isspace (hd ?R)" by (simp add: isspace_def)
  have "rfirst FORMAT (length (src @ ?R)) (src @ ?R) Map.empty
          = Some ([], [''src'' \<mapsto> src, ''start'' \<mapsto> a, ''end'' \<mapsto> b])"
    unfolding FORMAT_tail_unfold
    using assms(1,2) sp rfirst_cells_clause [OF assms(3,4)] by (rule rfirst_src)
  from re_search_rfirst [OF this] show ?thesis by simp
qed

lemma search_plain:
  assumes "src \<noteq> []" "list_all (\<lambda>c. \<not> isspace c) src"
  shows "\<exists>k. re_search FORMAT src = Some (0, k, [''src'' \<mapsto> src])"
proof -
  have sp: "([]::string) = [] \<or> isspace (hd [])" by simp
  have "rfirst FORMAT (length (src @ [])) (src @ []) Map.empty = Some ([], [''src'' \<mapsto> src])"
    unfolding FORMAT_tail_unfold
    using assms(1,2) sp rfirst_no_clauses by (rule rfirst_src)
  from re_search_rfirst [of FORMAT src "[]"] this show ?thesis by simp
qed

lemma notebook_args_of_search:
  assumes "re_search FORMAT markup = Some (0, k, [''src'' \<mapsto> src, ''start'' \<mapsto> a, ''end'' \<mapsto> b])"
  shows "notebook_args markup =
     (case (if a \<noteq> [] then py_int a else Inr 0) of
        Inl e \<Rightarrow> Inl e
      | Inr start_v \<Rightarrow>
          (case (if b \<noteq> [] then map_sum id Some (py_int b) else Inr None) of
             Inl e \<Rightarrow> Inl e
           | Inr end_v \<Rightarrow> Inr (Some src, start_v, end_v, None)))"
  by (simp add: notebook_args_def assms split: sum.splits)

lemma notebook_args_of_search_plain:
  assumes "re_search FORMAT markup = Some (0, k, [''src'' \<mapsto> src])"
  shows "notebook_args markup = Inr (Some src, 0, None, None)"
  by (simp add: notebook_args_def assms)

lemma show_int_examples:
  "show_int 2 = ''2''" "show_int 5 = ''5''" "show_int (- 3) = ''-3''" "show_int (- 1) = ''-1''"
  by (simp_all add: show_int_def show_nat.simps digit_char_def)

lemma re_split_no_match: "re_findall r s = [] \<Longrightarrow> re_split r s = [s]"
  using alternate_split_findall [of r s] split_findall_length [of r s]
  by (cases "re_split r s") auto

text \<open>The loop over a list of spans is the loop over its front, then over its back.\<close>

lemma run_loop_append:
  "run_loop tags self (xs @ ys) w =
     (case run_loop tags self xs w of
        (Inl e, w1) \<Rightarrow> (Inl e, w1)
      | (Inr rs1, w1) \<Rightarrow>
          (case run_loop tags self ys w1 of
             (Inl e, w2) \<Rightarrow> (Inl e, w2)
           | (Inr rs2, w2) \<Rightarrow> (Inr (rs1 @ rs2), w2)))"
proof (induction xs arbitrary: w)
  case Nil
  show ?case by (simp split: prod.splits sum.splits)
next
  case (Cons m ms)
  show ?case
    by (simp add: Cons.IH Let_def split: option.splits prod.splits sum.splits)
qed

text \<open>
  A span whose tag name is not registered costs the loop nothing: no handler is called,
  nothing is raised for it, the world is not touched and the span stays as it is.
\<close>

lemma run_loop_unregistered_head:
  assumes "extract_tag (span_body m) = Some t" and "tags t = None"
  shows "run_loop tags self (m # ms) w =
     (case run_loop tags self ms w of
        (Inl e, w') \<Rightarrow> (Inl e, w')
      | (Inr rs, w') \<Rightarrow> (Inr (m # rs), w'))"
  using assms
  by (auto simp: Let_def extract_tag_def span_body_def split: option.splits prod.splits sum.splits)

lemma run_loop_unregistered_span:
  assumes "extract_tag (span_body m) = Some t" and "tags t = None"
  shows "run_loop tags self (ms1 @ m # ms2) w =
     (case run_loop tags self ms1 w of
        (Inl e, w1) \<Rightarrow> (Inl e, w1)
      | (Inr rs1, w1) \<Rightarrow>
          (case run_loop tags self ms2 w1 of
             (Inl e, w2) \<Rightarrow> (Inl e, w2)
           | (Inr rs2, w2) \<Rightarrow> (Inr (rs1 @ m # rs2), w2)))"
proof -
  have hd: "run_loop tags self (m # ms2) w1 =
     (case run_loop tags self ms2 w1 of
        (Inl e, w') \<Rightarrow> (Inl e, w')
      | (Inr rs, w') \<Rightarrow> (Inr (m # rs), w'))" for w1
    by (rule run_loop_unregistered_head [where tags = tags, OF assms])
  show ?thesis
    unfolding run_loop_append hd
    by (simp split: prod.splits sum.splits)
qed

section \<open>The claims\<close>

text \<open>
  C1. Claimed: a second call of \<open>addLiquidTags\<close> on the same settings appends no second
  \<open>LiquidTags\<close> instance. Starting from empty settings, the first call installs one
  instance and the second call appends another: the test \<open>LiquidTags not in ext_list\<close>
  looks for the class, and the list holds an instance.
\<close>

theorem addLiquidTags_twice_appends_twice:
  "addLiquidTags [] =
     Inr [(''MARKDOWN'', SDict [(''extensions'', SList [LiquidTagsInstance LT_CONFIG])])]
   \<and> addLiquidTags [(''MARKDOWN'', SDict [(''extensions'', SList [LiquidTagsInstance LT_CONFIG])])] =
     Inr [(''MARKDOWN'', SDict [(''extensions'',
            SList [LiquidTagsInstance LT_CONFIG, LiquidTagsInstance LT_CONFIG])])]
   \<and> length (filter is_LiquidTags (extensions_of
        [(''MARKDOWN'', SDict [(''extensions'',
            SList [LiquidTagsInstance LT_CONFIG, LiquidTagsInstance LT_CONFIG])])])) = 2"
  by (simp add: addLiquidTags_def make_configs_def LT_CONFIG_def extensions_of_def)

text \<open>
  C2. Claimed: \<open>run\<close> returns for every input, and a span whose body holds no token, such
  as \<open>{% %}\<close>, is left unexpanded. On the one line \<open>{% %}\<close>, and on the one line
  \<open>{%%}\<close>, the pattern \<open>EXTRACT_TAG\<close> does not match the body, \<open>match\<close> gives \<open>None\<close>
  and \<open>run\<close> raises \<open>AttributeError\<close>, whatever the registry is.
\<close>

theorem run_tokenless_span_raises:
  "run tags self [''{% %}''] w =
     (Inl (AttributeError ''NoneType object has no attribute groups''), w)
   \<and> run tags self [''{%%}''] w =
     (Inl (AttributeError ''NoneType object has no attribute groups''), w)"
  by (simp add: run_def re_findall_def re_match_def re_match_at_def LIQUID_TAG_def EXTRACT_TAG_def
      cat_def isspace_def)

text \<open>
  C3, as amended. For a line sequence that is not empty, none of whose lines holds a
  newline, and whose joined text has no tag span, \<open>run\<close> returns the lines unchanged, and
  the world with them.
\<close>

theorem run_no_spans:
  assumes "re_findall LIQUID_TAG (join_nl lines) = []"
      and "lines \<noteq> []"
      and "\<forall>l \<in> set lines. CHR 0x0A \<notin> set l"
  shows "run tags self lines w = (Inr lines, w)"
  using assms by (simp add: run_reassemble re_split_no_match split_join_nl)

theorem run_no_spans_witness:
  "re_findall LIQUID_TAG (join_nl [''# Title'', '''', ''some { text } 100%'']) = []
   \<and> run [''t'' \<mapsto> failing_handler] () [''# Title'', '''', ''some { text } 100%''] []
       = (Inr [''# Title'', '''', ''some { text } 100%''], [])"
proof -
  have h: "re_findall LIQUID_TAG (join_nl [''# Title'', '''', ''some { text } 100%'']) = []"
    by code_simp
  from run_no_spans [OF h, of "[''t'' \<mapsto> failing_handler]" "()" "[]"] h show ?thesis
    by simp
qed

text \<open>
  C3, as claimed, fails: the empty line sequence has no tag span and \<open>run\<close> returns the
  one empty line; a line that holds a newline comes back as two lines.
\<close>

theorem run_no_spans_counterexample:
  "re_findall LIQUID_TAG (join_nl []) = []
   \<and> run [''t'' \<mapsto> failing_handler] () [] [] = (Inr [[]], [])
   \<and> run [''t'' \<mapsto> failing_handler] () [] [] \<noteq> (Inr [], [])
   \<and> re_findall LIQUID_TAG (join_nl [[CHR ''a'', CHR 0x0A, CHR ''b'']]) = []
   \<and> run [''t'' \<mapsto> failing_handler] () [[CHR ''a'', CHR 0x0A, CHR ''b'']] []
       = (Inr [''a'', ''b''], [])"
  by (simp add: run_def re_findall_def re_split_def re_match_at_def LIQUID_TAG_def cat_def
      chain_zip_def)

text \<open>
  C4, as amended. A span whose extracted tag name is not in the registry is left as it
  is, delimiters included, and raises nothing: with the spans of the page split around
  it, \<open>run\<close> fails only where the loop over the spans before it or after it fails, and
  otherwise its output is the segments alternating with the replacements of the spans
  before, the span itself, and the replacements of the spans after. Whenever \<open>run\<close>
  returns, the replacement of every such span is the span. Where every span has a tag
  name and none of the names is registered, \<open>run\<close> raises nothing, leaves the world as it
  was and returns the input text split at the newlines; and if the line sequence is not
  empty and none of its lines holds a newline, the output is the input line sequence.
\<close>

theorem run_unregistered_literal:
  "(re_findall LIQUID_TAG (join_nl lines) = ms1 @ m # ms2
      \<and> extract_tag (span_body m) = Some t \<and> tags t = None \<longrightarrow>
      run tags self lines w =
        (case run_loop tags self ms1 w of
           (Inl e, w1) \<Rightarrow> (Inl e, w1)
         | (Inr rs1, w1) \<Rightarrow>
             (case run_loop tags self ms2 w1 of
                (Inl e, w2) \<Rightarrow> (Inl e, w2)
              | (Inr rs2, w2) \<Rightarrow>
                  (Inr (split_nl (alternate (re_split LIQUID_TAG (join_nl lines))
                                    (rs1 @ m # rs2))), w2))))
   \<and> (run tags self lines w = (Inr out, w') \<longrightarrow>
      (\<exists>reps. length reps = length (re_findall LIQUID_TAG (join_nl lines))
         \<and> out = split_nl (alternate (re_split LIQUID_TAG (join_nl lines)) reps)
         \<and> (\<forall>i < length (re_findall LIQUID_TAG (join_nl lines)).
              (\<exists>t. extract_tag (span_body (re_findall LIQUID_TAG (join_nl lines) ! i)) = Some t
                   \<and> tags t = None)
              \<longrightarrow> reps ! i = re_findall LIQUID_TAG (join_nl lines) ! i)))
   \<and> ((\<forall>m \<in> set (re_findall LIQUID_TAG (join_nl lines)).
          \<exists>t. extract_tag (span_body m) = Some t \<and> tags t = None) \<longrightarrow>
        run tags self lines w = (Inr (split_nl (join_nl lines)), w)
        \<and> (lines \<noteq> [] \<and> (\<forall>l \<in> set lines. CHR 0x0A \<notin> set l) \<longrightarrow>
             run tags self lines w = (Inr lines, w)))"
proof (intro conjI impI)
  assume a: "re_findall LIQUID_TAG (join_nl lines) = ms1 @ m # ms2
      \<and> extract_tag (span_body m) = Some t \<and> tags t = None"
  then have sp: "re_findall LIQUID_TAG (join_nl lines) = ms1 @ m # ms2"
    and ex: "extract_tag (span_body m) = Some t" and un: "tags t = None"
    by simp_all
  show "run tags self lines w =
        (case run_loop tags self ms1 w of
           (Inl e, w1) \<Rightarrow> (Inl e, w1)
         | (Inr rs1, w1) \<Rightarrow>
             (case run_loop tags self ms2 w1 of
                (Inl e, w2) \<Rightarrow> (Inl e, w2)
              | (Inr rs2, w2) \<Rightarrow>
                  (Inr (split_nl (alternate (re_split LIQUID_TAG (join_nl lines))
                                    (rs1 @ m # rs2))), w2)))"
    unfolding run_reassemble sp run_loop_unregistered_span [where tags = tags, OF ex un]
    by (simp split: prod.splits sum.splits)
next
  assume r: "run tags self lines w = (Inr out, w')"
  let ?spans = "re_findall LIQUID_TAG (join_nl lines)"
  from r obtain reps where loop: "run_loop tags self ?spans w = (Inr reps, w')"
    and out: "out = split_nl (alternate (re_split LIQUID_TAG (join_nl lines)) reps)"
    by (auto simp: run_reassemble split: prod.splits sum.splits)
  have "length reps = length ?spans" using loop by (rule run_loop_length)
  moreover have "\<forall>i < length ?spans.
      (\<exists>t. extract_tag (span_body (?spans ! i)) = Some t \<and> tags t = None) \<longrightarrow> reps ! i = ?spans ! i"
    using run_loop_unregistered_nth [OF loop] by blast
  ultimately show "\<exists>reps. length reps = length ?spans
         \<and> out = split_nl (alternate (re_split LIQUID_TAG (join_nl lines)) reps)
         \<and> (\<forall>i < length ?spans.
              (\<exists>t. extract_tag (span_body (?spans ! i)) = Some t \<and> tags t = None)
              \<longrightarrow> reps ! i = ?spans ! i)"
    using out by blast
next
  let ?spans = "re_findall LIQUID_TAG (join_nl lines)"
  assume a: "\<forall>m \<in> set ?spans. \<exists>t. extract_tag (span_body m) = Some t \<and> tags t = None"
  then have tok: "\<forall>m \<in> set ?spans. has_token (span_body m)"
    and unreg: "\<forall>m \<in> set ?spans. tags (spec_tag_name (span_body m)) = None"
    by (auto simp: extract_tag_eq split: if_splits)
  show whole: "run tags self lines w = (Inr (split_nl (join_nl lines)), w)"
    by (simp add: run_reassemble run_loop_spec [OF tok] spec_replacements_unregistered [OF unreg]
        alternate_split_findall)
  assume "lines \<noteq> [] \<and> (\<forall>l \<in> set lines. CHR 0x0A \<notin> set l)"
  then have "split_nl (join_nl lines) = lines"
    using split_join_nl [of lines] by blast
  with whole show "run tags self lines w = (Inr lines, w)" by simp
qed

theorem run_unregistered_literal_witness:
  "re_findall LIQUID_TAG (join_nl [''a {% x 1 %} b'', ''{%y%}'']) = [''{% x 1 %}'', ''{%y%}'']
   \<and> extract_tag (span_body ''{% x 1 %}'') = Some ''x''
   \<and> extract_tag (span_body ''{%y%}'') = Some ''y''
   \<and> [''t'' \<mapsto> failing_handler] ''x'' = None
   \<and> [''t'' \<mapsto> failing_handler] ''y'' = None
   \<and> list_all (\<lambda>l. CHR 0x0A \<notin> set l) [''a {% x 1 %} b'', ''{%y%}'']
   \<and> run [''t'' \<mapsto> failing_handler] () [''a {% x 1 %} b'', ''{%y%}''] []
       = (Inr [''a {% x 1 %} b'', ''{%y%}''], [])"
proof -
  let ?L = "[''a {% x 1 %} b'', ''{%y%}'']"
  have fa: "re_findall LIQUID_TAG (join_nl ?L) = [''{% x 1 %}'', ''{%y%}'']"
    by code_simp
  have e1: "extract_tag (span_body ''{% x 1 %}'') = Some ''x''"
    by code_simp
  have e2: "extract_tag (span_body ''{%y%}'') = Some ''y''"
    by code_simp
  have h: "\<forall>m \<in> set (re_findall LIQUID_TAG (join_nl ?L)).
             \<exists>t. extract_tag (span_body m) = Some t \<and> [''t'' \<mapsto> failing_handler] t = None"
    unfolding fa
  proof (intro ballI)
    fix m :: string
    assume "m \<in> set [''{% x 1 %}'', ''{%y%}'']"
    then have "m = ''{% x 1 %}'' \<or> m = ''{%y%}''" by simp
    moreover have "[''t'' \<mapsto> failing_handler] ''x'' = None" by simp
    moreover have "[''t'' \<mapsto> failing_handler] ''y'' = None" by simp
    ultimately show "\<exists>t. extract_tag (span_body m) = Some t \<and> [''t'' \<mapsto> failing_handler] t = None"
      using e1 e2 by blast
  qed
  have ne: "?L \<noteq> []" by simp
  have nl': "list_all (\<lambda>l. CHR 0x0A \<notin> set l) ?L" by simp
  then have nl: "\<forall>l \<in> set ?L. CHR 0x0A \<notin> set l" by (simp only: list_all_iff)
  from run_unregistered_literal
         [where lines = ?L and tags = "[''t'' \<mapsto> failing_handler]" and self = "()" and w = "[]"]
       h ne nl
  have "run [''t'' \<mapsto> failing_handler] () ?L [] = (Inr ?L, [])"
    by blast
  with fa e1 e2 nl' show ?thesis by simp
qed

text \<open>
  C4, as claimed, fails where it says that the output equals the input: the one line
  \<open>{%u%}\<close> followed by a newline holds one span, its tag name \<open>u\<close> is not registered, and
  \<open>run\<close> returns two lines.
\<close>

theorem run_unregistered_literal_counterexample:
  "re_findall LIQUID_TAG (join_nl [''{%u%}'' @ [CHR 0x0A]]) = [''{%u%}'']
   \<and> extract_tag (span_body ''{%u%}'') = Some ''u''
   \<and> [''t'' \<mapsto> failing_handler] ''u'' = None
   \<and> run [''t'' \<mapsto> failing_handler] () [''{%u%}'' @ [CHR 0x0A]] [] = (Inr [''{%u%}'', ''''], [])
   \<and> [''{%u%}'', ''''] \<noteq> [''{%u%}'' @ [CHR 0x0A]]"
proof (intro conjI)
  show "re_findall LIQUID_TAG (join_nl [''{%u%}'' @ [CHR 0x0A]]) = [''{%u%}'']"
    by code_simp
  show "extract_tag (span_body ''{%u%}'') = Some ''u''"
    by code_simp
  show "[''t'' \<mapsto> failing_handler] ''u'' = None"
    by simp
  show "run [''t'' \<mapsto> failing_handler] () [''{%u%}'' @ [CHR 0x0A]] [] = (Inr [''{%u%}'', ''''], [])"
    by code_simp
  show "[''{%u%}'', ''''] \<noteq> [''{%u%}'' @ [CHR 0x0A]]"
    by simp
qed

text \<open>
  C5, as amended. Where the body of every span holds a token, \<open>run\<close> calls the handlers
  of the registered spans from left to right, each on the world the one before it left;
  it raises what the first failing handler raises; and if none fails its output is
  segment 0 + replacement 0 + ... + segment n, split at the newlines, a replacement
  being what the handler returned or, for an unregistered name, the span itself. The
  segments and the spans are the pieces of the page, in order, and there is one segment
  more than there are spans.
\<close>

theorem run_alternating:
  assumes "\<forall>m \<in> set (re_findall LIQUID_TAG (join_nl lines)). has_token (span_body m)"
  shows "run tags self lines w =
           (case spec_replacements tags self (re_findall LIQUID_TAG (join_nl lines)) w of
              (Inl e, w') \<Rightarrow> (Inl e, w')
            | (Inr reps, w') \<Rightarrow>
                (Inr (split_nl (alternate (re_split LIQUID_TAG (join_nl lines)) reps)), w'))
         \<and> length (re_split LIQUID_TAG (join_nl lines))
             = Suc (length (re_findall LIQUID_TAG (join_nl lines)))
         \<and> alternate (re_split LIQUID_TAG (join_nl lines)) (re_findall LIQUID_TAG (join_nl lines))
             = join_nl lines"
  by (simp add: run_reassemble run_loop_spec [OF assms] split_findall_length
      alternate_split_findall)

theorem run_alternating_witness:
  "list_all (\<lambda>m. has_token (span_body m))
     (re_findall LIQUID_TAG (join_nl [''x{%a 1%}y{% q %}'', ''z{% b  2 3 %}'']))
   \<and> run [''a'' \<mapsto> recording_handler ''A'', ''b'' \<mapsto> recording_handler ''B''] ()
         [''x{%a 1%}y{% q %}'', ''z{% b  2 3 %}''] []
       = (Inr [''xAy{% q %}'', ''zB''], [(''a'', ''1''), (''b'', ''2 3'')])"
proof -
  let ?L = "[''x{%a 1%}y{% q %}'', ''z{% b  2 3 %}'']"
  let ?T = "[''a'' \<mapsto> recording_handler ''A'', ''b'' \<mapsto> recording_handler ''B'']"
  have h': "list_all (\<lambda>m. has_token (span_body m)) (re_findall LIQUID_TAG (join_nl ?L))"
    by code_simp
  then have h: "\<forall>m \<in> set (re_findall LIQUID_TAG (join_nl ?L)). has_token (span_body m)"
    by (simp add: list_all_iff)
  have v: "(case spec_replacements ?T () (re_findall LIQUID_TAG (join_nl ?L)) [] of
              (Inl e, w') \<Rightarrow> (Inl e, w')
            | (Inr reps, w') \<Rightarrow>
                (Inr (split_nl (alternate (re_split LIQUID_TAG (join_nl ?L)) reps)), w'))
           = (Inr [''xAy{% q %}'', ''zB''], [(''a'', ''1''), (''b'', ''2 3'')])"
    by code_simp
  from run_alternating [OF h, of ?T "()" "[]"] v h' show ?thesis by simp
qed

text \<open>
  C5, as claimed for every set of handlers, fails: a handler that raises makes \<open>run\<close>
  raise, and \<open>run\<close> has no output.
\<close>

theorem run_alternating_counterexample:
  "run [''t'' \<mapsto> failing_handler] () [''a{% t %}b''] [] = (Inl (Exception ''handler failed''), [])"
  by code_simp

text \<open>
  C6. Registering a handler under a name that is already registered appends one warning,
  returns the handler, and leaves the registry with the new handler under that name and
  every other name as it was; \<open>register\<close> has no failing branch.
\<close>

theorem register_overrides:
  "tag \<in> dom tags \<Longrightarrow>
     register tag func (tags, warnings) =
       (func, tags(tag \<mapsto> func),
        warnings @ [''Enhanced Markdown: overriding tag '' @ [CHR 0x27] @ tag @ [CHR 0x27]])
     \<and> fst (snd (register tag func (tags, warnings))) tag = Some func
     \<and> (\<forall>t. t \<noteq> tag \<longrightarrow> fst (snd (register tag func (tags, warnings))) t = tags t)"
  by (simp add: register_def)

theorem register_overrides_witness:
  "''t'' \<in> dom [''t'' \<mapsto> failing_handler] \<and>
   fst (snd (register ''t'' (recording_handler ''R'') ([''t'' \<mapsto> failing_handler], []))) ''t''
     = Some (recording_handler ''R'') \<and>
   snd (snd (register ''t'' (recording_handler ''R'') ([''t'' \<mapsto> failing_handler], [])))
     = [''Enhanced Markdown: overriding tag '' @ [CHR 0x27] @ ''t'' @ [CHR 0x27]]"
  using register_overrides [of "''t''" "[''t'' \<mapsto> failing_handler]" "recording_handler ''R''" "[]"]
  by simp

text \<open>
  C7. For every path \<open>src\<close> (not empty, without whitespace) and all integers \<open>i\<close> and
  \<open>j\<close>, written in decimal: the clause \<open>cells[i:j]\<close> gives start \<open>i\<close> and end \<open>j\<close>,
  \<open>cells[:j]\<close> start 0 and end \<open>j\<close>, \<open>cells[i:]\<close> start \<open>i\<close> and no end, and no
  \<open>cells\<close> clause start 0 and no end; a negative bound comes out as the negative
  integer it denotes. So \<open>cells[2:5]\<close> gives 2 and 5, and \<open>cells[-3:-1]\<close> gives -3 and -1.
\<close>

theorem notebook_args_cells:
  assumes "src \<noteq> []" and "\<forall>c \<in> set src. \<not> isspace c"
  shows "notebook_args (src @ '' cells['' @ show_int i @ '':'' @ show_int j @ '']'')
           = Inr (Some src, i, Some j, None)
       \<and> notebook_args (src @ '' cells[:'' @ show_int j @ '']'') = Inr (Some src, 0, Some j, None)
       \<and> notebook_args (src @ '' cells['' @ show_int i @ '':]'') = Inr (Some src, i, None, None)
       \<and> notebook_args src = Inr (Some src, 0, None, None)"
proof (intro conjI)
  from assms(2) have ns: "list_all (\<lambda>c. \<not> isspace c) src" by (simp add: list_all_iff)
  note bi = bound_text_show_int [of i] and bj = bound_text_show_int [of j] and be = bound_text_empty
  show "notebook_args (src @ '' cells['' @ show_int i @ '':'' @ show_int j @ '']'')
          = Inr (Some src, i, Some j, None)"
  proof -
    from search_cells [OF assms(1) ns bi bj] obtain k where
      "re_search FORMAT (src @ '' cells['' @ show_int i @ '':'' @ show_int j @ '']'')
         = Some (0, k, [''src'' \<mapsto> src, ''start'' \<mapsto> show_int i, ''end'' \<mapsto> show_int j])" ..
    from notebook_args_of_search [OF this] show ?thesis
      by (simp add: show_int_nonempty py_int_show_int)
  qed
  show "notebook_args (src @ '' cells[:'' @ show_int j @ '']'') = Inr (Some src, 0, Some j, None)"
  proof -
    from search_cells [OF assms(1) ns be bj] obtain k where
      "re_search FORMAT (src @ '' cells['' @ [] @ '':'' @ show_int j @ '']'')
         = Some (0, k, [''src'' \<mapsto> src, ''start'' \<mapsto> [], ''end'' \<mapsto> show_int j])" ..
    from notebook_args_of_search [OF this] show ?thesis
      by (simp add: show_int_nonempty py_int_show_int)
  qed
  show "notebook_args (src @ '' cells['' @ show_int i @ '':]'') = Inr (Some src, i, None, None)"
  proof -
    from search_cells [OF assms(1) ns bi be] obtain k where
      "re_search FORMAT (src @ '' cells['' @ show_int i @ '':'' @ [] @ '']'')
         = Some (0, k, [''src'' \<mapsto> src, ''start'' \<mapsto> show_int i, ''end'' \<mapsto> []])" ..
    from notebook_args_of_search [OF this] show ?thesis
      by (simp add: show_int_nonempty py_int_show_int)
  qed
  show "notebook_args src = Inr (Some src, 0, None, None)"
  proof -
    from search_plain [OF assms(1) ns] obtain k where
      "re_search FORMAT src = Some (0, k, [''src'' \<mapsto> src])" ..
    then show ?thesis by (rule notebook_args_of_search_plain)
  qed
qed

theorem notebook_args_cells_witness:
  "''nb.ipynb'' \<noteq> [] \<and> list_all (\<lambda>c. \<not> isspace c) ''nb.ipynb''
   \<and> notebook_args ''nb.ipynb cells[2:5]'' = Inr (Some ''nb.ipynb'', 2, Some 5, None)
   \<and> notebook_args ''nb.ipynb cells[:5]'' = Inr (Some ''nb.ipynb'', 0, Some 5, None)
   \<and> notebook_args ''nb.ipynb cells[2:]'' = Inr (Some ''nb.ipynb'', 2, None, None)
   \<and> notebook_args ''nb.ipynb'' = Inr (Some ''nb.ipynb'', 0, None, None)
   \<and> notebook_args ''nb.ipynb cells[-3:-1]'' = Inr (Some ''nb.ipynb'', - 3, Some (- 1), None)"
proof -
  have ns: "list_all (\<lambda>c. \<not> isspace c) ''nb.ipynb''" by (simp add: isspace_def)
  then have h: "\<forall>c \<in> set ''nb.ipynb''. \<not> isspace c" by (simp only: list_all_iff)
  have ne: "''nb.ipynb'' \<noteq> []" by simp
  from notebook_args_cells [OF ne h, of 2 5] notebook_args_cells [OF ne h, of "- 3" "- 1"] ns
  show ?thesis by (simp add: show_int_examples)
qed

text \<open>The range with a language clause after it.\<close>

lemma notebook_args_language_example:
  "notebook_args ''nb.ipynb cells[-12:] language[python]''
     = Inr (Some ''nb.ipynb'', - 12, None, Some ''python'')"
  by code_simp

text \<open>
  Where \<open>FORMAT\<close> does not match the argument text, \<open>notebook\<close> raises the \<open>ValueError\<close>
  that names the expected syntax and leaves the world as it was: no path was tested, no
  file opened, no exporter and no subprocess called, nothing stashed.
\<close>

lemma notebook_no_match:
  "re_search FORMAT markup = None \<Longrightarrow>
     notebook env preprocessor tag markup w =
       (Inl (ValueError (''Error processing input, expected syntax: '' @ SYNTAX)), w)"
  by (simp add: notebook_def notebook_args_def)

lemma notebook_no_match_example:
  "re_search FORMAT ''a.ipynb b.ipynb'' = None \<and>
   notebook example_env \<lparr>getConfig = (\<lambda>k. ''notebooks'')\<rparr> ''notebook'' ''a.ipynb b.ipynb''
       example_world
     = (Inl (ValueError (''Error processing input, expected syntax: '' @ SYNTAX)), example_world)"
proof -
  have h: "re_search FORMAT ''a.ipynb b.ipynb'' = None" by code_simp
  from notebook_no_match [OF h] h show ?thesis by simp
qed

text \<open>
  C8. Claimed: every argument text outside the grammar of the tag fails with the error
  that states the expected syntax. A bound that is a lone minus sign is no integer, so
  \<open>nb.ipynb cells[-:5]\<close> is outside the grammar (its start bound is neither empty nor
  the numeral of an integer); but \<open>-?[0-9]*\<close> in \<open>FORMAT\<close> lets the lone minus through, the
  pattern matches, and \<open>int\<close> raises on it: the handler fails with the message of \<open>int\<close>,
  which is not the one that states the expected syntax. The world is as it was, so no
  collaborator was called.
\<close>

theorem notebook_lone_minus_bound:
  "''-'' \<noteq> [] \<and> (\<forall>i. show_int i \<noteq> ''-'')
   \<and> re_search FORMAT ''nb.ipynb cells[-:5]'' \<noteq> None
   \<and> notebook env preprocessor tag ''nb.ipynb cells[-:5]'' w =
       (Inl (ValueError (''invalid literal for int() with base 10: '' @ [CHR 0x27] @ ''-'' @ [CHR 0x27])), w)
   \<and> ''invalid literal for int() with base 10: '' @ [CHR 0x27] @ ''-'' @ [CHR 0x27]
       \<noteq> ''Error processing input, expected syntax: '' @ SYNTAX"
proof (intro conjI)
  show "''-'' \<noteq> []" by simp
  show "\<forall>i. show_int i \<noteq> ''-''" by (simp add: show_int_not_lone_minus)
  have "(case re_search FORMAT ''nb.ipynb cells[-:5]'' of None \<Rightarrow> False | Some x \<Rightarrow> True)"
    by code_simp
  then show "re_search FORMAT ''nb.ipynb cells[-:5]'' \<noteq> None"
    by (auto split: option.splits)
  have args: "notebook_args ''nb.ipynb cells[-:5]'' =
      Inl (ValueError (''invalid literal for int() with base 10: '' @ [CHR 0x27] @ ''-'' @ [CHR 0x27]))"
    by code_simp
  show "notebook env preprocessor tag ''nb.ipynb cells[-:5]'' w =
       (Inl (ValueError (''invalid literal for int() with base 10: '' @ [CHR 0x27] @ ''-'' @ [CHR 0x27])), w)"
    unfolding notebook_def args by simp
  show "''invalid literal for int() with base 10: '' @ [CHR 0x27] @ ''-'' @ [CHR 0x27]
       \<noteq> ''Error processing input, expected syntax: '' @ SYNTAX"
    by (simp add: SYNTAX_def)
qed

text \<open>
  C9. The LESS compiler is run first as \<open>lessc - --clean-css\<close>; it is run a second time,
  as \<open>lessc -\<close>, exactly when the first run ended with a non-zero exit code, and never a
  third time. With \<open>(rc, out)\<close> the exit code and the output of the last run, the step
  raises its exception exactly when \<open>rc\<close> is not zero or \<open>out\<close> is empty, and otherwise
  returns the style element that holds \<open>out\<close>: a newline, the opening tag, a newline,
  \<open>out\<close>, a newline, the closing tag, a newline. So a failed first run followed by a retry
  that succeeds with output gives the output of the retry, wrapped, and no error.
\<close>

theorem compile_css_retry:
  assumes "subprocess_run env [''lessc'', ''-'', ''--clean-css''] css = Inr (rc1, out1)"
      and "rc1 \<noteq> 0 \<Longrightarrow> subprocess_run env [''lessc'', ''-''] css = Inr (rc2, out2)"
  shows "log (snd (compile_css env css w)) =
           log w @ (if rc1 \<noteq> 0
                    then [SubprocessRun [''lessc'', ''-'', ''--clean-css''] css,
                          SubprocessRun [''lessc'', ''-''] css]
                    else [SubprocessRun [''lessc'', ''-'', ''--clean-css''] css])
         \<and> stash (snd (compile_css env css w)) = stash w
         \<and> (let (rc, out) = (if rc1 \<noteq> 0 then (rc2, out2) else (rc1, out1))
            in case fst (compile_css env css w) of
                 Inl e \<Rightarrow> (rc \<noteq> 0 \<or> out = []) \<and> (\<exists>m. e = Exception m)
               | Inr scoped_css \<Rightarrow>
                   rc = 0 \<and> out \<noteq> []
                   \<and> scoped_css =
                       [CHR 0x0A] @ ''<style type='' @ [CHR 0x22] @ ''text/css'' @ [CHR 0x22] @ ''>''
                       @ [CHR 0x0A] @ out @ [CHR 0x0A] @ ''</style>'' @ [CHR 0x0A])"
proof (cases "rc1 = 0")
  case True
  with assms(1) show ?thesis
    by (simp add: compile_css_def emit_def Let_def CSS_WRAPPER_format_def)
next
  case False
  with assms(1) assms(2) [OF False] show ?thesis
    by (simp add: compile_css_def emit_def Let_def CSS_WRAPPER_format_def)
qed

theorem compile_css_retry_witness:
  "subprocess_run example_env [''lessc'', ''-'', ''--clean-css''] ''div{}'' = Inr (1, [])
   \<and> subprocess_run example_env [''lessc'', ''-''] ''div{}'' = Inr (0, ''div#nb-wrapper a{}'')
   \<and> log (snd (compile_css example_env ''div{}'' example_world)) =
        [SubprocessRun [''lessc'', ''-'', ''--clean-css''] ''div{}'',
         SubprocessRun [''lessc'', ''-''] ''div{}'']
   \<and> fst (compile_css example_env ''div{}'' example_world) =
        Inr ([CHR 0x0A] @ ''<style type='' @ [CHR 0x22] @ ''text/css'' @ [CHR 0x22] @ ''>''
             @ [CHR 0x0A] @ ''div#nb-wrapper a{}'' @ [CHR 0x0A] @ ''</style>'' @ [CHR 0x0A])"
proof -
  have f: "subprocess_run example_env [''lessc'', ''-'', ''--clean-css''] ''div{}'' = Inr (1, [])"
    by (simp add: example_env_def)
  have r: "subprocess_run example_env [''lessc'', ''-''] ''div{}'' = Inr (0, ''div#nb-wrapper a{}'')"
    by (simp add: example_env_def)
  from compile_css_retry [OF f r, of example_world] f r show ?thesis
    by (simp add: example_world_def split: sum.splits)
qed

text \<open>
  C10. \<open>SubCell.preprocess\<close> on a notebook of the store returns a new object and the
  resources it was given; every object that was in the store before, the caller's
  notebook among them, is unchanged; the new object has the cells of the notebook sliced
  by \<open>[start:end]\<close> and the rest of its contents.
\<close>

theorem preprocess_frame:
  "nb < length h \<Longrightarrow>
     (\<exists>h'. preprocess self nb resources h = Some ((length h, resources), h')
        \<and> length h' = Suc (length h)
        \<and> (\<forall>a < length h. h' ! a = h ! a)
        \<and> cells (h' ! length h) = py_slice (cells (h ! nb)) (start self) (end' self)
        \<and> other (h' ! length h) = other (h ! nb))"
  by (simp add: preprocess_def deepcopy_def nth_append)

theorem preprocess_frame_witness:
  "(0::nat) < length [\<lparr>cells = [10, 11, 12, 13, 14 :: nat], other = ''meta''\<rparr>] \<and>
   preprocess \<lparr>start = Some 1, end' = Some (- 1)\<rparr> 0 ''res''
       [\<lparr>cells = [10, 11, 12, 13, 14 :: nat], other = ''meta''\<rparr>]
     = Some ((1, ''res''),
             [\<lparr>cells = [10, 11, 12, 13, 14], other = ''meta''\<rparr>,
              \<lparr>cells = [11, 12, 13], other = ''meta''\<rparr>])"
  using preprocess_frame [of 0 "[\<lparr>cells = [10, 11, 12, 13, 14 :: nat], other = ''meta''\<rparr>]"
      "\<lparr>start = Some 1, end' = Some (- 1)\<rparr>" "''res''"]
  by (simp add: preprocess_def deepcopy_def py_slice_def slice_bound_def)

end
